theory Spec2Isabelle
  imports Main "HOL-Library.Word"
begin

unbundle bit_operations_syntax

section \<open>SimpleFlash: data model\<close>

text \<open>
  The flash wrapper \<^verbatim>\<open>SimpleFlash.c\<close> sits on top of the vendor peripheral driver.
  The status codes of the wrapper (\<^verbatim>\<open>FlashStatus\<close>, SimpleFlash.h) and of the vendor
  driver (\<^verbatim>\<open>FLASH_Status\<close>) are enums.  The vendor enum is only used through the
  names that \<^verbatim>\<open>Flash_ConvertStatus\<close> switches on; every other code the driver could
  return is \<open>FLASH_STATUS_OTHER\<close> and reaches the \<^verbatim>\<open>default\<close> branch.
\<close>

datatype FlashStatus =
    FLASH_OK
  | FLASH_ERROR
  | FLASH_ERROR_BUSY
  | FLASH_ERROR_TIMEOUT
  | FLASH_ERROR_WRITE
  | FLASH_ERROR_ERASE
  | FLASH_ERROR_VERIFY
  | FLASH_ERROR_ALIGN
  | FLASH_ERROR_RANGE
  | FLASH_ERROR_CRC
  | FLASH_ERROR_INVALID

datatype FLASH_Status =
    FLASH_BUSY
  | FLASH_ERROR_PG
  | FLASH_ERROR_WRP
  | FLASH_COMPLETE
  | FLASH_TIMEOUT
  | FLASH_OP_RANGE_ERROR
  | FLASH_ALIGN_ERROR
  | FLASH_ADR_RANGE_ERROR
  | FLASH_STATUS_OTHER

text \<open>
  The device: a byte-addressed memory over 32-bit addresses and the lock bit of the
  flash controller.  The core is little-endian, so a volatile 16- or 32-bit load at
  \<open>a\<close> assembles the bytes at \<open>a\<close>, \<open>a + 1\<close>, ... from the low end.
\<close>

record flash_dev =
  mem :: "32 word \<Rightarrow> 8 word"
  locked :: bool

definition load16 :: "(32 word \<Rightarrow> 8 word) \<Rightarrow> 32 word \<Rightarrow> 16 word" where
  "load16 m a = ucast (m a) OR push_bit 8 (ucast (m (a + 1)))"

definition load32 :: "(32 word \<Rightarrow> 8 word) \<Rightarrow> 32 word \<Rightarrow> 32 word" where
  "load32 m a = ucast (m a) OR push_bit 8 (ucast (m (a + 1)))
                OR push_bit 16 (ucast (m (a + 2))) OR push_bit 24 (ucast (m (a + 3)))"

text \<open>
  Modelled from the spec: the vendor flash driver (\<^verbatim>\<open>FLASH_ErasePage\<close>,
  \<^verbatim>\<open>FLASH_ProgramHalfWord\<close>, \<^verbatim>\<open>FLASH_ProgramWord\<close>, \<^verbatim>\<open>FLASH_Unlock\<close>,
  \<^verbatim>\<open>FLASH_Lock\<close> and the enum \<^verbatim>\<open>FLASH_Status\<close>) is not among the sources; the spec
  names it only as the vendor register-level API that the wrappers call and whose return
  codes they propagate.  The three operations that change flash cells are therefore
  parameters of the model: each takes the device and returns the driver's status and
  the device afterwards, and no definition assumes anything about them.
  \<^verbatim>\<open>FLASH_Unlock\<close> and \<^verbatim>\<open>FLASH_Lock\<close> toggle the controller's lock bit and touch no
  flash cell.
\<close>

record vendor_flash =
  FLASH_ErasePage :: "32 word \<Rightarrow> flash_dev \<Rightarrow> FLASH_Status \<times> flash_dev"
  FLASH_ProgramHalfWord :: "32 word \<Rightarrow> 16 word \<Rightarrow> flash_dev \<Rightarrow> FLASH_Status \<times> flash_dev"
  FLASH_ProgramWord :: "32 word \<Rightarrow> 32 word \<Rightarrow> flash_dev \<Rightarrow> FLASH_Status \<times> flash_dev"

definition FLASH_Unlock :: "flash_dev \<Rightarrow> flash_dev" where
  "FLASH_Unlock s = s\<lparr>locked := False\<rparr>"

definition FLASH_Lock :: "flash_dev \<Rightarrow> flash_dev" where
  "FLASH_Lock s = s\<lparr>locked := True\<rparr>"

subsection \<open>Constants of SimpleFlash.h\<close>

definition FLASH_PAGE_SIZE :: "32 word" where "FLASH_PAGE_SIZE = 64"
definition FLASH_BASE_ADDRESS :: "32 word" where "FLASH_BASE_ADDRESS = 0x08000000"
definition FLASH_STORAGE_PAGE_START :: "32 word" where "FLASH_STORAGE_PAGE_START = 254"
definition FLASH_STORAGE_PAGE_COUNT :: "32 word" where "FLASH_STORAGE_PAGE_COUNT = 2"

definition FLASH_STORAGE_START_ADDR :: "32 word" where
  "FLASH_STORAGE_START_ADDR = FLASH_BASE_ADDRESS + FLASH_STORAGE_PAGE_START * FLASH_PAGE_SIZE"

definition FLASH_STORAGE_SIZE :: "32 word" where
  "FLASH_STORAGE_SIZE = FLASH_STORAGE_PAGE_COUNT * FLASH_PAGE_SIZE"

definition FLASH_CONFIG_PAGE :: "8 word" where "FLASH_CONFIG_PAGE = 254"
definition FLASH_DATA_PAGE :: "8 word" where "FLASH_DATA_PAGE = 255"

definition FLASH_CONFIG_ADDR :: "32 word" where
  "FLASH_CONFIG_ADDR = FLASH_BASE_ADDRESS + ucast FLASH_CONFIG_PAGE * FLASH_PAGE_SIZE"

definition FLASH_CONFIG_SIZE :: "16 word" where "FLASH_CONFIG_SIZE = 64"

subsection \<open>Private helpers and utilities\<close>

definition Flash_UnlockInternal :: "flash_dev \<Rightarrow> FlashStatus \<times> flash_dev" where
  "Flash_UnlockInternal s = (FLASH_OK, FLASH_Unlock s)"

definition Flash_LockInternal :: "flash_dev \<Rightarrow> flash_dev" where
  "Flash_LockInternal s = FLASH_Lock s"

fun Flash_ConvertStatus :: "FLASH_Status \<Rightarrow> FlashStatus" where
  "Flash_ConvertStatus FLASH_COMPLETE = FLASH_OK"
| "Flash_ConvertStatus FLASH_BUSY = FLASH_ERROR_BUSY"
| "Flash_ConvertStatus FLASH_TIMEOUT = FLASH_ERROR_TIMEOUT"
| "Flash_ConvertStatus FLASH_ERROR_PG = FLASH_ERROR_WRITE"
| "Flash_ConvertStatus FLASH_ERROR_WRP = FLASH_ERROR_WRITE"
| "Flash_ConvertStatus FLASH_ALIGN_ERROR = FLASH_ERROR_ALIGN"
| "Flash_ConvertStatus FLASH_ADR_RANGE_ERROR = FLASH_ERROR_RANGE"
| "Flash_ConvertStatus FLASH_OP_RANGE_ERROR = FLASH_ERROR_RANGE"
| "Flash_ConvertStatus FLASH_STATUS_OTHER = FLASH_ERROR"

definition Flash_IsAddressValid :: "32 word \<Rightarrow> bool" where
  "Flash_IsAddressValid addr \<longleftrightarrow>
     addr \<ge> FLASH_STORAGE_START_ADDR \<and> addr < FLASH_STORAGE_START_ADDR + FLASH_STORAGE_SIZE"

definition Flash_GetPageAddress :: "8 word \<Rightarrow> 32 word" where
  "Flash_GetPageAddress page_num =
     (if page_num \<noteq> FLASH_CONFIG_PAGE \<and> page_num \<noteq> FLASH_DATA_PAGE then 0
      else FLASH_BASE_ADDRESS + ucast page_num * FLASH_PAGE_SIZE)"

subsection \<open>Erase and basic reads\<close>

definition Flash_ErasePage :: "vendor_flash \<Rightarrow> 8 word \<Rightarrow> flash_dev \<Rightarrow> FlashStatus \<times> flash_dev" where
  "Flash_ErasePage v page_num s =
     (if page_num \<noteq> FLASH_CONFIG_PAGE \<and> page_num \<noteq> FLASH_DATA_PAGE then (FLASH_ERROR_RANGE, s)
      else let page_addr = Flash_GetPageAddress page_num in
        if page_addr = 0 then (FLASH_ERROR_RANGE, s)
        else let (status, s1) = Flash_UnlockInternal s in
          if status \<noteq> FLASH_OK then (status, s1)
          else let (flash_status, s2) = FLASH_ErasePage v page_addr s1;
                   s3 = Flash_LockInternal s2
               in (Flash_ConvertStatus flash_status, s3))"

definition Flash_ReadByte :: "flash_dev \<Rightarrow> 32 word \<Rightarrow> 8 word" where
  "Flash_ReadByte s addr = (if \<not> Flash_IsAddressValid addr then 0 else mem s addr)"

definition Flash_ReadHalfWord :: "flash_dev \<Rightarrow> 32 word \<Rightarrow> 16 word" where
  "Flash_ReadHalfWord s addr =
     (if \<not> Flash_IsAddressValid addr \<or> addr AND 0x01 \<noteq> 0 then 0 else load16 (mem s) addr)"

definition Flash_ReadWord :: "flash_dev \<Rightarrow> 32 word \<Rightarrow> 32 word" where
  "Flash_ReadWord s addr =
     (if \<not> Flash_IsAddressValid addr \<or> addr AND 0x03 \<noteq> 0 then 0 else load32 (mem s) addr)"

subsection \<open>Basic writes\<close>

definition Flash_WriteHalfWord ::
  "vendor_flash \<Rightarrow> 32 word \<Rightarrow> 16 word \<Rightarrow> flash_dev \<Rightarrow> FlashStatus \<times> flash_dev" where
  "Flash_WriteHalfWord v addr data s =
     (if \<not> Flash_IsAddressValid addr then (FLASH_ERROR_RANGE, s)
      else if addr AND 0x01 \<noteq> 0 then (FLASH_ERROR_ALIGN, s)
      else let (status, s1) = Flash_UnlockInternal s in
        if status \<noteq> FLASH_OK then (status, s1)
        else let (flash_status, s2) = FLASH_ProgramHalfWord v addr data s1;
                 s3 = Flash_LockInternal s2
             in if flash_status = FLASH_COMPLETE \<and> Flash_ReadHalfWord s3 addr \<noteq> data
                then (FLASH_ERROR_VERIFY, s3)
                else (Flash_ConvertStatus flash_status, s3))"

definition Flash_WriteByte ::
  "vendor_flash \<Rightarrow> 32 word \<Rightarrow> 8 word \<Rightarrow> flash_dev \<Rightarrow> FlashStatus \<times> flash_dev" where
  "Flash_WriteByte v addr data s =
     (if \<not> Flash_IsAddressValid addr then (FLASH_ERROR_RANGE, s)
      else let aligned_addr = addr AND NOT 0x01;
               half_word = (if addr AND 0x01 \<noteq> 0
                            then ucast (Flash_ReadByte s aligned_addr) OR push_bit 8 (ucast data)
                            else push_bit 8 (ucast (Flash_ReadByte s (aligned_addr + 1))) OR ucast data)
           in Flash_WriteHalfWord v aligned_addr half_word s)"

definition Flash_WriteWord ::
  "vendor_flash \<Rightarrow> 32 word \<Rightarrow> 32 word \<Rightarrow> flash_dev \<Rightarrow> FlashStatus \<times> flash_dev" where
  "Flash_WriteWord v addr data s =
     (if \<not> Flash_IsAddressValid addr then (FLASH_ERROR_RANGE, s)
      else if addr AND 0x03 \<noteq> 0 then (FLASH_ERROR_ALIGN, s)
      else let (status, s1) = Flash_UnlockInternal s in
        if status \<noteq> FLASH_OK then (status, s1)
        else let (flash_status, s2) = FLASH_ProgramWord v addr data s1;
                 s3 = Flash_LockInternal s2
             in if flash_status = FLASH_COMPLETE \<and> Flash_ReadWord s3 addr \<noteq> data
                then (FLASH_ERROR_VERIFY, s3)
                else (Flash_ConvertStatus flash_status, s3))"

subsection \<open>Byte loops\<close>

text \<open>
  The loops \<^verbatim>\<open>for (uint16_t i = 0; i < size; i++)\<close> run a 16-bit counter below a 16-bit
  bound, so the counter never wraps; it is a natural number here and enters the 32-bit
  address sum \<^verbatim>\<open>addr + i\<close> through \<open>of_nat\<close>.  Buffers in RAM are byte lists; the
  caller must supply at least as many bytes as the loop indexes.
\<close>

function write_bytes_loop ::
  "vendor_flash \<Rightarrow> 32 word \<Rightarrow> 8 word list \<Rightarrow> nat \<Rightarrow> nat \<Rightarrow> flash_dev \<Rightarrow> FlashStatus \<times> flash_dev" where
  "write_bytes_loop v addr src i n s =
     (if i < n
      then (let (status, s') = Flash_WriteByte v (addr + of_nat i) (src ! i) s
            in if status \<noteq> FLASH_OK then (status, s')
               else write_bytes_loop v addr src (i + 1) n s')
      else (FLASH_OK, s))"
  by pat_completeness auto
termination
  by (relation "measure (\<lambda>(v, addr, src, i, n, s). n - i)") auto

function read_bytes_loop ::
  "flash_dev \<Rightarrow> 32 word \<Rightarrow> 8 word list \<Rightarrow> nat \<Rightarrow> nat \<Rightarrow> 8 word list" where
  "read_bytes_loop s addr dest i n =
     (if i < n
      then read_bytes_loop s addr (dest[i := Flash_ReadByte s (addr + of_nat i)]) (i + 1) n
      else dest)"
  by pat_completeness auto
termination
  by (relation "measure (\<lambda>(s, addr, dest, i, n). n - i)") auto

declare write_bytes_loop.simps [simp del]
declare read_bytes_loop.simps [simp del]

subsection \<open>Writes with automatic erase\<close>

definition Flash_WriteByteWithErase ::
  "vendor_flash \<Rightarrow> 32 word \<Rightarrow> 8 word \<Rightarrow> flash_dev \<Rightarrow> FlashStatus \<times> flash_dev" where
  "Flash_WriteByteWithErase v addr data s =
     (if \<not> Flash_IsAddressValid addr then (FLASH_ERROR_RANGE, s)
      else let page_addr = addr AND NOT (FLASH_PAGE_SIZE - 1);
               page_num = (ucast ((addr - FLASH_BASE_ADDRESS) div FLASH_PAGE_SIZE) :: 8 word);
               page_buffer0 = read_bytes_loop s page_addr (replicate 64 0) 0 64;
               offset = (ucast (addr - page_addr) :: 16 word);
               page_buffer = page_buffer0[unat offset := data];
               (status, s1) = Flash_ErasePage v page_num s
           in if status \<noteq> FLASH_OK then (status, s1)
              else write_bytes_loop v page_addr page_buffer 0 64 s1)"

definition Flash_WriteHalfWordWithErase ::
  "vendor_flash \<Rightarrow> 32 word \<Rightarrow> 16 word \<Rightarrow> flash_dev \<Rightarrow> FlashStatus \<times> flash_dev" where
  "Flash_WriteHalfWordWithErase v addr data s =
     (if \<not> Flash_IsAddressValid addr \<or> addr AND 0x01 \<noteq> 0 then (FLASH_ERROR_ALIGN, s)
      else let (status, s1) = Flash_WriteByteWithErase v addr (ucast (data AND 0xFF)) s
           in if status \<noteq> FLASH_OK then (status, s1)
              else Flash_WriteByteWithErase v (addr + 1) (ucast (drop_bit 8 data)) s1)"

definition Flash_WriteWordWithErase ::
  "vendor_flash \<Rightarrow> 32 word \<Rightarrow> 32 word \<Rightarrow> flash_dev \<Rightarrow> FlashStatus \<times> flash_dev" where
  "Flash_WriteWordWithErase v addr data s =
     (if \<not> Flash_IsAddressValid addr \<or> addr AND 0x03 \<noteq> 0 then (FLASH_ERROR_ALIGN, s)
      else let (status, s1) = Flash_WriteHalfWordWithErase v addr (ucast (data AND 0xFFFF)) s
           in if status \<noteq> FLASH_OK then (status, s1)
              else Flash_WriteHalfWordWithErase v (addr + 2) (ucast (drop_bit 16 data)) s1)"

subsection \<open>Strings and structs\<close>

text \<open>
  A pointer argument is \<open>None\<close> for \<^verbatim>\<open>NULL\<close> and \<open>Some\<close> of the bytes it points to
  otherwise.  A function that writes through the pointer returns the buffer afterwards.
  The parameter \<^verbatim>\<open>size\<close> of the source is \<open>sz\<close> here.
  In \<^verbatim>\<open>Flash_ReadString\<close> the bound \<^verbatim>\<open>max_len - 1\<close> is only evaluated when
  \<^verbatim>\<open>max_len\<close> is at least 1, so the subtraction on naturals is the one of the code.
\<close>

function read_string_loop ::
  "flash_dev \<Rightarrow> 32 word \<Rightarrow> 8 word list \<Rightarrow> nat \<Rightarrow> nat \<Rightarrow> nat \<times> 8 word list" where
  "read_string_loop s addr buffer i max_len =
     (if i < max_len - 1
      then (let c = Flash_ReadByte s (addr + of_nat i);
                buffer' = buffer[i := c]
            in if c = 0 then (i, buffer')
               else read_string_loop s addr buffer' (i + 1) max_len)
      else (i, buffer[max_len - 1 := 0]))"
  by pat_completeness auto
termination
  by (relation "measure (\<lambda>(s, addr, buffer, i, max_len). max_len - 1 - i)") auto

declare read_string_loop.simps [simp del]

definition Flash_ReadString ::
  "flash_dev \<Rightarrow> 32 word \<Rightarrow> 8 word list option \<Rightarrow> 16 word \<Rightarrow> 16 word \<times> 8 word list option" where
  "Flash_ReadString s addr buffer max_len =
     (if \<not> Flash_IsAddressValid addr \<or> buffer = None \<or> max_len = 0 then (0, buffer)
      else let (i, b) = read_string_loop s addr (the buffer) 0 (unat max_len)
           in (of_nat i, Some b))"

definition Flash_ReadStruct ::
  "flash_dev \<Rightarrow> 32 word \<Rightarrow> 8 word list option \<Rightarrow> 16 word \<Rightarrow> FlashStatus \<times> 8 word list option" where
  "Flash_ReadStruct s addr ptr sz =
     (if \<not> Flash_IsAddressValid addr \<or> ptr = None \<or> sz = 0 then (FLASH_ERROR_INVALID, ptr)
      else if ucast sz > FLASH_PAGE_SIZE then (FLASH_ERROR_RANGE, ptr)
      else (FLASH_OK, Some (read_bytes_loop s addr (the ptr) 0 (unat sz))))"

definition Flash_WriteStruct ::
  "vendor_flash \<Rightarrow> 32 word \<Rightarrow> 8 word list option \<Rightarrow> 16 word \<Rightarrow> flash_dev \<Rightarrow> FlashStatus \<times> flash_dev" where
  "Flash_WriteStruct v addr ptr sz s =
     (if \<not> Flash_IsAddressValid addr \<or> ptr = None \<or> sz = 0 then (FLASH_ERROR_INVALID, s)
      else if ucast sz > FLASH_PAGE_SIZE then (FLASH_ERROR_RANGE, s)
      else write_bytes_loop v addr (the ptr) 0 (unat sz) s)"

subsection \<open>CRC and configuration management\<close>

definition crc16_shift :: "16 word \<Rightarrow> 16 word" where
  "crc16_shift crc = (if crc AND 0x8000 \<noteq> 0 then push_bit 1 crc XOR 0x1021 else push_bit 1 crc)"

fun crc16_bits :: "nat \<Rightarrow> 16 word \<Rightarrow> 16 word" where
  "crc16_bits 0 crc = crc"
| "crc16_bits (Suc j) crc = crc16_bits j (crc16_shift crc)"

function crc16_loop :: "8 word list \<Rightarrow> nat \<Rightarrow> nat \<Rightarrow> 16 word \<Rightarrow> 16 word" where
  "crc16_loop data i len crc =
     (if i < len
      then crc16_loop data (i + 1) len (crc16_bits 8 (crc XOR push_bit 8 (ucast (data ! i))))
      else crc)"
  by pat_completeness auto
termination
  by (relation "measure (\<lambda>(data, i, len, crc). len - i)") auto

declare crc16_loop.simps [simp del]

definition Flash_CalculateCRC16 :: "8 word list \<Rightarrow> 16 word \<Rightarrow> 16 word" where
  "Flash_CalculateCRC16 data len = crc16_loop data 0 (unat len) 0xFFFF"

definition Flash_SaveConfig ::
  "vendor_flash \<Rightarrow> 8 word list option \<Rightarrow> 16 word \<Rightarrow> flash_dev \<Rightarrow> FlashStatus \<times> flash_dev" where
  "Flash_SaveConfig v ptr sz s =
     (if ptr = None \<or> sz = 0 \<or> sz > FLASH_CONFIG_SIZE - 2 then (FLASH_ERROR_INVALID, s)
      else let crc = Flash_CalculateCRC16 (the ptr) sz;
               (status, s1) = Flash_ErasePage v FLASH_CONFIG_PAGE s
           in if status \<noteq> FLASH_OK then (status, s1)
              else let (status, s2) = Flash_WriteStruct v FLASH_CONFIG_ADDR ptr sz s1
                   in if status \<noteq> FLASH_OK then (status, s2)
                      else Flash_WriteHalfWord v (FLASH_CONFIG_ADDR + ucast sz) crc s2)"

definition Flash_LoadConfig ::
  "flash_dev \<Rightarrow> 8 word list option \<Rightarrow> 16 word \<Rightarrow> bool \<times> 8 word list option" where
  "Flash_LoadConfig s ptr sz =
     (if ptr = None \<or> sz = 0 \<or> sz > FLASH_CONFIG_SIZE - 2 then (False, ptr)
      else let (status, ptr1) = Flash_ReadStruct s FLASH_CONFIG_ADDR ptr sz
           in if status \<noteq> FLASH_OK then (False, ptr1)
              else let stored_crc = Flash_ReadHalfWord s (FLASH_CONFIG_ADDR + ucast sz);
                       calculated_crc = Flash_CalculateCRC16 (the ptr1) sz
                   in (stored_crc = calculated_crc, ptr1))"

subsection \<open>Assumption on the device, and a simulated device\<close>

text \<open>
  The only fact about the hardware that the round-trip argument uses: programming the
  half-word at \<open>a\<close> leaves every cell other than \<open>a\<close> and \<open>a + 1\<close> as it was.
\<close>

definition program_is_local :: "vendor_flash \<Rightarrow> bool" where
  "program_is_local v \<longleftrightarrow>
     (\<forall>a d s b. b \<noteq> a \<and> b \<noteq> a + 1 \<longrightarrow> mem (snd (FLASH_ProgramHalfWord v a d s)) b = mem s b)"

text \<open>
  A simulated NOR flash for running the wrapper on concrete inputs: erasing sets the
  64-byte page to \<open>0xFF\<close>, programming can only clear bits (the cell becomes the
  bitwise AND of its content and the data), and both report completion.
\<close>

definition sim_erase_page :: "32 word \<Rightarrow> flash_dev \<Rightarrow> FLASH_Status \<times> flash_dev" where
  "sim_erase_page pa s =
     (FLASH_COMPLETE, s\<lparr>mem := (\<lambda>a. if a AND NOT 63 = pa then 0xFF else mem s a)\<rparr>)"

definition sim_program_halfword :: "32 word \<Rightarrow> 16 word \<Rightarrow> flash_dev \<Rightarrow> FLASH_Status \<times> flash_dev" where
  "sim_program_halfword a d s =
     (FLASH_COMPLETE,
      s\<lparr>mem := (mem s)(a := mem s a AND ucast d,
                       a + 1 := mem s (a + 1) AND ucast (drop_bit 8 d))\<rparr>)"

definition sim_program_word :: "32 word \<Rightarrow> 32 word \<Rightarrow> flash_dev \<Rightarrow> FLASH_Status \<times> flash_dev" where
  "sim_program_word a d s =
     (FLASH_COMPLETE,
      s\<lparr>mem := (mem s)(a := mem s a AND ucast d,
                       a + 1 := mem s (a + 1) AND ucast (drop_bit 8 d),
                       a + 2 := mem s (a + 2) AND ucast (drop_bit 16 d),
                       a + 3 := mem s (a + 3) AND ucast (drop_bit 24 d))\<rparr>)"

definition sim_flash :: vendor_flash where
  "sim_flash = \<lparr>FLASH_ErasePage = sim_erase_page,
                FLASH_ProgramHalfWord = sim_program_halfword,
                FLASH_ProgramWord = sim_program_word\<rparr>"

definition erased_dev :: flash_dev where
  "erased_dev = \<lparr>mem = (\<lambda>a. 0xFF), locked = True\<rparr>"

text \<open>
  Concrete runs used below: a device whose config page holds the byte \<open>0x00\<close> followed by
  the CRC of that byte; a device whose config page holds three bytes with CRC 0 followed
  by the half-word \<open>0x3412\<close>; and two successive configuration updates on the simulated
  device.
\<close>

definition crc_odd_dev :: flash_dev where
  "crc_odd_dev = \<lparr>mem = (\<lambda>a. 0xFF)(0x08003F80 := 0x00, 0x08003F81 := 0xF0, 0x08003F82 := 0xE1),
                  locked = True\<rparr>"

definition crc_zero_dev :: flash_dev where
  "crc_zero_dev = \<lparr>mem = (\<lambda>a. 0xFF)(0x08003F82 := 0x00, 0x08003F83 := 0x12, 0x08003F84 := 0x34),
                   locked = True\<rparr>"

definition update_once :: "FlashStatus \<times> flash_dev" where
  "update_once = Flash_SaveConfig sim_flash (Some [0x11, 0x22]) 2 erased_dev"

definition update_twice :: "FlashStatus \<times> flash_dev" where
  "update_twice = Flash_SaveConfig sim_flash (Some [0x33, 0x44]) 2 (snd update_once)"

section \<open>SimpleDMA: data model\<close>

datatype DMA_Status =
    DMA_STATUS_IDLE
  | DMA_STATUS_BUSY
  | DMA_STATUS_COMPLETE
  | DMA_STATUS_ERROR

text \<open>
  A channel is the integer value of the enum \<^verbatim>\<open>DMA_Channel\<close> (\<^verbatim>\<open>DMA_CH1 = 1\<close> ...
  \<^verbatim>\<open>DMA_CH7 = 7\<close>); the three private arrays have seven entries and are indexed by
  \<^verbatim>\<open>channel - 1\<close>.  A callback is a function pointer, \<open>None\<close> for \<^verbatim>\<open>NULL\<close>.  Calling
  one appends the pointer and its argument to \<open>cb_trace\<close>; what the user's function
  does is outside the library.

  The peripheral is its registers: the interrupt flag register \<open>INTFR\<close> of DMA1 (four
  bits per channel: global, transfer complete, half transfer, transfer error), and per
  channel one configuration register \<open>CFGR\<close>, one transfer counter \<open>CNTR\<close> and the two
  address registers \<open>PADDR\<close> and \<open>MADDR\<close>.  Around it are the set of interrupt lines
  enabled in the interrupt controller, the clock gate of DMA1 in the clock controller,
  and the byte-addressed memory \<open>ram\<close> that the pointers handed to the library point
  into.
\<close>

record dma_state =
  channel_status :: "DMA_Status list"
  transfer_complete_callbacks :: "nat option list"
  error_callbacks :: "nat option list"
  cb_trace :: "(nat \<times> nat) list"
  INTFR :: "32 word"
  CFGR :: "32 word list"
  CNTR :: "32 word list"
  PADDR :: "32 word list"
  MADDR :: "32 word list"
  nvic_enabled :: "nat set"
  rcc_dma1_clock :: bool
  ram :: "32 word \<Rightarrow> 8 word"

subsection \<open>Vendor driver: flags and channel control\<close>

text \<open>
  Modelled from the spec: the vendor DMA header and driver (the constants
  \<^verbatim>\<open>DMA1_FLAG_*\<close>, \<^verbatim>\<open>DMA1_IT_*\<close>, \<^verbatim>\<open>DMA_IT_*\<close> and the functions
  \<^verbatim>\<open>DMA_GetFlagStatus\<close>, \<^verbatim>\<open>DMA_ClearFlag\<close>, \<^verbatim>\<open>DMA_GetITStatus\<close>,
  \<^verbatim>\<open>DMA_ClearITPendingBit\<close>, \<^verbatim>\<open>DMA_Cmd\<close>, \<^verbatim>\<open>DMA_ITConfig\<close>, \<^verbatim>\<open>NVIC_EnableIRQ\<close>)
  are not among the sources; the spec names them only as the vendor register-level API
  with its interrupt flags.  The constants below are the masks of the vendor header:
  channel \<open>n\<close> owns bits \<open>4(n-1)\<close> to \<open>4(n-1)+3\<close> of \<open>INTFR\<close>, which is why the
  wrapper shifts the channel-1 masks by \<^verbatim>\<open>(channel - 1) * 4\<close>.  The driver tests a flag by
  masking \<open>INTFR\<close> and clears flags by writing the mask to the flag clear register,
  where a global-flag bit clears all four flags of its channel.
\<close>

definition DMA1_FLAG_GL1 :: "32 word" where "DMA1_FLAG_GL1 = 0x00000001"
definition DMA1_FLAG_TC1 :: "32 word" where "DMA1_FLAG_TC1 = 0x00000002"
definition DMA1_FLAG_TE1 :: "32 word" where "DMA1_FLAG_TE1 = 0x00000008"

definition DMA1_IT_TC1 :: "32 word" where "DMA1_IT_TC1 = 0x00000002"
definition DMA1_IT_TE1 :: "32 word" where "DMA1_IT_TE1 = 0x00000008"
definition DMA1_IT_TC2 :: "32 word" where "DMA1_IT_TC2 = 0x00000020"
definition DMA1_IT_TE2 :: "32 word" where "DMA1_IT_TE2 = 0x00000080"
definition DMA1_IT_TC3 :: "32 word" where "DMA1_IT_TC3 = 0x00000200"
definition DMA1_IT_TE3 :: "32 word" where "DMA1_IT_TE3 = 0x00000800"
definition DMA1_IT_TC4 :: "32 word" where "DMA1_IT_TC4 = 0x00002000"
definition DMA1_IT_TE4 :: "32 word" where "DMA1_IT_TE4 = 0x00008000"
definition DMA1_IT_TC5 :: "32 word" where "DMA1_IT_TC5 = 0x00020000"
definition DMA1_IT_TE5 :: "32 word" where "DMA1_IT_TE5 = 0x00080000"
definition DMA1_IT_TC6 :: "32 word" where "DMA1_IT_TC6 = 0x00200000"
definition DMA1_IT_TE6 :: "32 word" where "DMA1_IT_TE6 = 0x00800000"
definition DMA1_IT_TC7 :: "32 word" where "DMA1_IT_TC7 = 0x02000000"
definition DMA1_IT_TE7 :: "32 word" where "DMA1_IT_TE7 = 0x08000000"

definition DMA_IT_TC :: "32 word" where "DMA_IT_TC = 0x00000002"
definition DMA_IT_TE :: "32 word" where "DMA_IT_TE = 0x00000008"
definition DMA_CFGR1_EN :: "32 word" where "DMA_CFGR1_EN = 0x00000001"

definition flag_clear_mask :: "32 word \<Rightarrow> 32 word" where
  "flag_clear_mask m = m OR (m AND 0x01111111) * 0xF"

definition DMA_GetFlagStatus :: "dma_state \<Rightarrow> 32 word \<Rightarrow> bool" where
  "DMA_GetFlagStatus s flag \<longleftrightarrow> INTFR s AND flag \<noteq> 0"

definition DMA_ClearFlag :: "32 word \<Rightarrow> dma_state \<Rightarrow> dma_state" where
  "DMA_ClearFlag flag s = s\<lparr>INTFR := INTFR s AND NOT (flag_clear_mask flag)\<rparr>"

definition DMA_GetITStatus :: "dma_state \<Rightarrow> 32 word \<Rightarrow> bool" where
  "DMA_GetITStatus s it \<longleftrightarrow> INTFR s AND it \<noteq> 0"

definition DMA_ClearITPendingBit :: "32 word \<Rightarrow> dma_state \<Rightarrow> dma_state" where
  "DMA_ClearITPendingBit it s = s\<lparr>INTFR := INTFR s AND NOT (flag_clear_mask it)\<rparr>"

definition DMA_Cmd :: "nat \<Rightarrow> bool \<Rightarrow> dma_state \<Rightarrow> dma_state" where
  "DMA_Cmd dma_ch enable s =
     s\<lparr>CFGR := (CFGR s)[dma_ch - 1 :=
          (if enable then CFGR s ! (dma_ch - 1) OR DMA_CFGR1_EN
           else CFGR s ! (dma_ch - 1) AND NOT DMA_CFGR1_EN)]\<rparr>"

definition DMA_ITConfig :: "nat \<Rightarrow> 32 word \<Rightarrow> bool \<Rightarrow> dma_state \<Rightarrow> dma_state" where
  "DMA_ITConfig dma_ch it enable s =
     s\<lparr>CFGR := (CFGR s)[dma_ch - 1 :=
          (if enable then CFGR s ! (dma_ch - 1) OR it
           else CFGR s ! (dma_ch - 1) AND NOT it)]\<rparr>"

definition NVIC_EnableIRQ :: "nat \<Rightarrow> dma_state \<Rightarrow> dma_state" where
  "NVIC_EnableIRQ irqn s = s\<lparr>nvic_enabled := insert irqn (nvic_enabled s)\<rparr>"

subsection \<open>Private helpers\<close>

text \<open>
  \<^verbatim>\<open>get_channel_base\<close> and \<^verbatim>\<open>get_channel_irqn\<close> switch on the channel and fall back to
  channel 1.  The register block and the interrupt line of channel \<open>n\<close> are both
  identified by \<open>n\<close>.
\<close>

definition get_channel_base :: "nat \<Rightarrow> nat" where
  "get_channel_base channel = (if 1 \<le> channel \<and> channel \<le> 7 then channel else 1)"

definition get_channel_irqn :: "nat \<Rightarrow> nat" where
  "get_channel_irqn channel = (if 1 \<le> channel \<and> channel \<le> 7 then channel else 1)"

definition set_status :: "nat \<Rightarrow> DMA_Status \<Rightarrow> dma_state \<Rightarrow> dma_state" where
  "set_status idx st s = s\<lparr>channel_status := (channel_status s)[idx := st]\<rparr>"

definition invoke :: "nat \<Rightarrow> nat \<Rightarrow> dma_state \<Rightarrow> dma_state" where
  "invoke f channel s = s\<lparr>cb_trace := cb_trace s @ [(f, channel)]\<rparr>"

subsection \<open>Public functions\<close>

definition DMA_Start :: "nat \<Rightarrow> dma_state \<Rightarrow> dma_state" where
  "DMA_Start channel s =
     (let dma_ch = get_channel_base channel;
          flag_base = (channel - 1) * 4;
          s1 = DMA_ClearFlag (push_bit flag_base DMA1_FLAG_TC1) s;
          s2 = DMA_ClearFlag (push_bit flag_base DMA1_FLAG_TE1) s1;
          s3 = set_status (channel - 1) DMA_STATUS_BUSY s2
      in DMA_Cmd dma_ch True s3)"

definition DMA_Stop :: "nat \<Rightarrow> dma_state \<Rightarrow> dma_state" where
  "DMA_Stop channel s =
     (let dma_ch = get_channel_base channel;
          s1 = DMA_Cmd dma_ch False s
      in set_status (channel - 1) DMA_STATUS_IDLE s1)"

definition DMA_GetStatus :: "nat \<Rightarrow> dma_state \<Rightarrow> DMA_Status \<times> dma_state" where
  "DMA_GetStatus channel s =
     (let flag_base = (channel - 1) * 4;
          s1 = (if DMA_GetFlagStatus s (push_bit flag_base DMA1_FLAG_TC1)
                then set_status (channel - 1) DMA_STATUS_COMPLETE s else s);
          s2 = (if DMA_GetFlagStatus s1 (push_bit flag_base DMA1_FLAG_TE1)
                then set_status (channel - 1) DMA_STATUS_ERROR s1 else s1)
      in (channel_status s2 ! (channel - 1), s2))"

definition DMA_Reset :: "nat \<Rightarrow> dma_state \<Rightarrow> dma_state" where
  "DMA_Reset channel s =
     (let dma_ch = get_channel_base channel;
          s1 = DMA_Cmd dma_ch False s;
          flag_base = (channel - 1) * 4;
          s2 = DMA_ClearFlag (push_bit flag_base DMA1_FLAG_GL1) s1
      in set_status (channel - 1) DMA_STATUS_IDLE s2)"

definition DMA_SetTransferCompleteCallback :: "nat \<Rightarrow> nat option \<Rightarrow> dma_state \<Rightarrow> dma_state" where
  "DMA_SetTransferCompleteCallback channel callback s =
     (let s1 = s\<lparr>transfer_complete_callbacks :=
                   (transfer_complete_callbacks s)[channel - 1 := callback]\<rparr>;
          dma_ch = get_channel_base channel;
          s2 = DMA_ITConfig dma_ch DMA_IT_TC True s1;
          irqn = get_channel_irqn channel
      in NVIC_EnableIRQ irqn s2)"

definition DMA_SetErrorCallback :: "nat \<Rightarrow> nat option \<Rightarrow> dma_state \<Rightarrow> dma_state" where
  "DMA_SetErrorCallback channel callback s =
     (let s1 = s\<lparr>error_callbacks := (error_callbacks s)[channel - 1 := callback]\<rparr>;
          dma_ch = get_channel_base channel;
          s2 = DMA_ITConfig dma_ch DMA_IT_TE True s1;
          irqn = get_channel_irqn channel
      in NVIC_EnableIRQ irqn s2)"

text \<open>
  \<^verbatim>\<open>DMA_WaitComplete\<close> polls in \<^verbatim>\<open>while (1)\<close>.  Between two polls the peripheral and
  the interrupt handlers may change the state; \<open>env\<close> is that change.  The loop may run
  forever, which is the value \<open>None\<close>.  The flag \<^verbatim>\<open>use_timeout\<close> guards an empty block.
\<close>

partial_function (option) DMA_WaitComplete ::
  "(dma_state \<Rightarrow> dma_state) \<Rightarrow> nat \<Rightarrow> 32 word \<Rightarrow> dma_state \<Rightarrow> (8 word \<times> dma_state) option" where
  "DMA_WaitComplete env channel timeout_ms s =
     (let use_timeout = (timeout_ms > 0);
          r = DMA_GetStatus channel s
      in if fst r = DMA_STATUS_COMPLETE then Some (1, snd r)
         else if fst r = DMA_STATUS_ERROR then Some (0, snd r)
         else if use_timeout then DMA_WaitComplete env channel timeout_ms (env (snd r))
         else DMA_WaitComplete env channel timeout_ms (env (snd r)))"

text \<open>The state in which the \<open>k\<close>-th poll of the loop starts.\<close>

fun poll_state :: "(dma_state \<Rightarrow> dma_state) \<Rightarrow> nat \<Rightarrow> dma_state \<Rightarrow> nat \<Rightarrow> dma_state" where
  "poll_state env channel s 0 = s"
| "poll_state env channel s (Suc k) = env (snd (DMA_GetStatus channel (poll_state env channel s k)))"

subsection \<open>Channel configuration\<close>

text \<open>
  The configuration structure of the wrapper.  The field \<^verbatim>\<open>channel\<close> is named
  \<open>cfg_channel\<close> here; the other fields keep their names.
\<close>

datatype DMA_Direction =
    DMA_DIR_PERIPH_TO_MEM
  | DMA_DIR_MEM_TO_PERIPH
  | DMA_DIR_MEM_TO_MEM

datatype DMA_Priority =
    DMA_PRIORITY_LOW
  | DMA_PRIORITY_MEDIUM
  | DMA_PRIORITY_HIGH
  | DMA_PRIORITY_VERY_HIGH

datatype DMA_DataSize =
    DMA_SIZE_BYTE
  | DMA_SIZE_HALFWORD
  | DMA_SIZE_WORD

datatype DMA_Mode =
    DMA_MODE_NORMAL
  | DMA_MODE_CIRCULAR

record DMA_Config_t =
  cfg_channel :: nat
  direction :: DMA_Direction
  priority :: DMA_Priority
  data_size :: DMA_DataSize
  mode :: DMA_Mode
  mem_increment :: "8 word"
  periph_increment :: "8 word"
  periph_addr :: "32 word"
  mem_addr :: "32 word"
  buffer_size :: "16 word"

definition DMA_CH1 :: nat where "DMA_CH1 = 1"

text \<open>
  Modelled from the spec: the vendor initialisation structure \<^verbatim>\<open>DMA_InitTypeDef\<close>, the
  vendor constants for its fields, \<^verbatim>\<open>DMA_Init\<close> and \<^verbatim>\<open>RCC_AHBPeriphClockCmd\<close> are not
  among the sources; the spec names them only as the vendor register-level API.  The
  constants are the field values of the channel configuration register: bit 4 the
  direction, bit 5 circular mode, bit 6 and bit 7 the peripheral and memory address
  increment, bits 8-9 and 10-11 the peripheral and memory item size, bits 12-13 the
  priority, bit 14 memory-to-memory.  \<^verbatim>\<open>DMA_Init\<close> replaces those fields of the
  configuration register, keeping the enable and interrupt enable bits, and loads the
  counter and the two address registers.
\<close>

record DMA_InitTypeDef =
  DMA_PeripheralBaseAddr :: "32 word"
  DMA_MemoryBaseAddr :: "32 word"
  DMA_DIR :: "32 word"
  DMA_BufferSize :: "32 word"
  DMA_PeripheralInc :: "32 word"
  DMA_MemoryInc :: "32 word"
  DMA_PeripheralDataSize :: "32 word"
  DMA_MemoryDataSize :: "32 word"
  DMA_Mode :: "32 word"
  DMA_Priority :: "32 word"
  DMA_M2M :: "32 word"

definition DMA_DIR_PeripheralDST :: "32 word" where "DMA_DIR_PeripheralDST = 0x00000010"
definition DMA_DIR_PeripheralSRC :: "32 word" where "DMA_DIR_PeripheralSRC = 0x00000000"
definition DMA_PeripheralInc_Enable :: "32 word" where "DMA_PeripheralInc_Enable = 0x00000040"
definition DMA_PeripheralInc_Disable :: "32 word" where "DMA_PeripheralInc_Disable = 0x00000000"
definition DMA_MemoryInc_Enable :: "32 word" where "DMA_MemoryInc_Enable = 0x00000080"
definition DMA_MemoryInc_Disable :: "32 word" where "DMA_MemoryInc_Disable = 0x00000000"
definition DMA_PeripheralDataSize_Byte :: "32 word" where "DMA_PeripheralDataSize_Byte = 0x00000000"
definition DMA_PeripheralDataSize_HalfWord :: "32 word" where "DMA_PeripheralDataSize_HalfWord = 0x00000100"
definition DMA_PeripheralDataSize_Word :: "32 word" where "DMA_PeripheralDataSize_Word = 0x00000200"
definition DMA_Mode_Circular :: "32 word" where "DMA_Mode_Circular = 0x00000020"
definition DMA_Mode_Normal :: "32 word" where "DMA_Mode_Normal = 0x00000000"
definition DMA_Priority_VeryHigh :: "32 word" where "DMA_Priority_VeryHigh = 0x00003000"
definition DMA_Priority_High :: "32 word" where "DMA_Priority_High = 0x00002000"
definition DMA_Priority_Medium :: "32 word" where "DMA_Priority_Medium = 0x00001000"
definition DMA_Priority_Low :: "32 word" where "DMA_Priority_Low = 0x00000000"
definition DMA_M2M_Enable :: "32 word" where "DMA_M2M_Enable = 0x00004000"
definition DMA_M2M_Disable :: "32 word" where "DMA_M2M_Disable = 0x00000000"
definition CFGR_CLEAR_Mask :: "32 word" where "CFGR_CLEAR_Mask = 0xFFFF800F"

definition DMA_Init :: "nat \<Rightarrow> DMA_InitTypeDef \<Rightarrow> dma_state \<Rightarrow> dma_state" where
  "DMA_Init dma_ch init s =
     s\<lparr>CFGR := (CFGR s)[dma_ch - 1 :=
          (CFGR s ! (dma_ch - 1) AND CFGR_CLEAR_Mask)
            OR DMA_DIR init OR DMA_Mode init OR DMA_PeripheralInc init OR DMA_MemoryInc init
            OR DMA_PeripheralDataSize init OR DMA_MemoryDataSize init
            OR DMA_Priority init OR DMA_M2M init],
       CNTR := (CNTR s)[dma_ch - 1 := DMA_BufferSize init],
       PADDR := (PADDR s)[dma_ch - 1 := DMA_PeripheralBaseAddr init],
       MADDR := (MADDR s)[dma_ch - 1 := DMA_MemoryBaseAddr init]\<rparr>"

definition RCC_AHBPeriphClockCmd_DMA1 :: "bool \<Rightarrow> dma_state \<Rightarrow> dma_state" where
  "RCC_AHBPeriphClockCmd_DMA1 enable s = s\<lparr>rcc_dma1_clock := enable\<rparr>"

definition enable_dma_clock :: "dma_state \<Rightarrow> dma_state" where
  "enable_dma_clock s = RCC_AHBPeriphClockCmd_DMA1 True s"

text \<open>
  \<^verbatim>\<open>DMA_SimpleInit\<close> fills the initialisation structure field by field from the
  configuration.  The item size chosen for the peripheral side is stored for the memory
  side too.
\<close>

definition DMA_SimpleInit :: "DMA_Config_t \<Rightarrow> dma_state \<Rightarrow> dma_state" where
  "DMA_SimpleInit config s =
     (let i0 = \<lparr>DMA_PeripheralBaseAddr = 0, DMA_MemoryBaseAddr = 0, DMA_DIR = 0,
                DMA_BufferSize = 0, DMA_PeripheralInc = 0, DMA_MemoryInc = 0,
                DMA_PeripheralDataSize = 0, DMA_MemoryDataSize = 0, DMA_Mode = 0,
                DMA_Priority = 0, DMA_M2M = 0\<rparr>;
          s1 = enable_dma_clock s;
          s2 = DMA_Reset (cfg_channel config) s1;
          dma_ch = get_channel_base (cfg_channel config);
          i1 = i0\<lparr>DMA_PeripheralBaseAddr := periph_addr config\<rparr>;
          i2 = i1\<lparr>DMA_MemoryBaseAddr := mem_addr config\<rparr>;
          i3 = (if direction config = DMA_DIR_MEM_TO_MEM
                then i2\<lparr>DMA_DIR := DMA_DIR_PeripheralSRC, DMA_M2M := DMA_M2M_Enable\<rparr>
                else if direction config = DMA_DIR_MEM_TO_PERIPH
                then i2\<lparr>DMA_DIR := DMA_DIR_PeripheralDST, DMA_M2M := DMA_M2M_Disable\<rparr>
                else i2\<lparr>DMA_DIR := DMA_DIR_PeripheralSRC, DMA_M2M := DMA_M2M_Disable\<rparr>);
          i4 = i3\<lparr>DMA_BufferSize := ucast (buffer_size config)\<rparr>;
          i5 = i4\<lparr>DMA_PeripheralInc :=
                    (if periph_increment config \<noteq> 0 then DMA_PeripheralInc_Enable
                     else DMA_PeripheralInc_Disable)\<rparr>;
          i6 = i5\<lparr>DMA_MemoryInc :=
                    (if mem_increment config \<noteq> 0 then DMA_MemoryInc_Enable
                     else DMA_MemoryInc_Disable)\<rparr>;
          data_width = (case data_size config of
                          DMA_SIZE_BYTE \<Rightarrow> DMA_PeripheralDataSize_Byte
                        | DMA_SIZE_HALFWORD \<Rightarrow> DMA_PeripheralDataSize_HalfWord
                        | DMA_SIZE_WORD \<Rightarrow> DMA_PeripheralDataSize_Word);
          i7 = i6\<lparr>DMA_PeripheralDataSize := data_width\<rparr>;
          i8 = i7\<lparr>DMA_MemoryDataSize := data_width\<rparr>;
          i9 = i8\<lparr>DMA_Mode :=
                    (if mode config = DMA_MODE_CIRCULAR then DMA_Mode_Circular
                     else DMA_Mode_Normal)\<rparr>;
          prio = (case priority config of
                    DMA_PRIORITY_LOW \<Rightarrow> DMA_Priority_Low
                  | DMA_PRIORITY_MEDIUM \<Rightarrow> DMA_Priority_Medium
                  | DMA_PRIORITY_HIGH \<Rightarrow> DMA_Priority_High
                  | DMA_PRIORITY_VERY_HIGH \<Rightarrow> DMA_Priority_VeryHigh);
          i10 = i9\<lparr>DMA_Priority := prio\<rparr>;
          s3 = DMA_Init dma_ch i10 s2
      in set_status (cfg_channel config - 1) DMA_STATUS_IDLE s3)"

subsection \<open>Memory copy\<close>

text \<open>
  \<^verbatim>\<open>DMA_MemCopy\<close> returns nothing; the result here is the state in which it returns, and
  \<open>None\<close> when the wait inside it never ends.  The source pointer goes to the
  peripheral address and the destination pointer to the memory address.
\<close>

definition memcopy_config :: "32 word \<Rightarrow> 32 word \<Rightarrow> 16 word \<Rightarrow> DMA_Config_t" where
  "memcopy_config dst src sz =
     \<lparr>cfg_channel = DMA_CH1,
      direction = DMA_DIR_MEM_TO_MEM,
      priority = DMA_PRIORITY_HIGH,
      data_size = DMA_SIZE_BYTE,
      mode = DMA_MODE_NORMAL,
      mem_increment = 1,
      periph_increment = 1,
      periph_addr = src,
      mem_addr = dst,
      buffer_size = sz\<rparr>"

definition DMA_MemCopy ::
  "(dma_state \<Rightarrow> dma_state) \<Rightarrow> 32 word \<Rightarrow> 32 word \<Rightarrow> 16 word \<Rightarrow> dma_state \<Rightarrow> dma_state option" where
  "DMA_MemCopy env dst src sz s =
     (let config = memcopy_config dst src sz;
          s1 = DMA_SimpleInit config s;
          s2 = DMA_Start DMA_CH1 s1
      in map_option snd (DMA_WaitComplete env DMA_CH1 0 s2))"

subsection \<open>The transfer engine\<close>

text \<open>
  Modelled from the spec: the engine is hardware, which the spec describes as the
  peripheral that transfers data between memory and peripherals without CPU involvement
  per byte.  One step of a channel moves one item.  A channel moves an item when the
  clock of DMA1 runs, the channel is enabled (bit 0), it is in memory-to-memory mode
  (bit 14), not circular (bit 5), and its counter is not zero.  The item goes from the
  peripheral address to the memory address, or the other way when the direction bit
  (bit 4) is set; an address with its increment bit set advances by the item size; the
  counter goes down by one, and when it reaches zero the transfer-complete flag and the
  global flag of the channel are raised.  The current addresses are kept in the address
  registers.  Transfers paced by a peripheral request, circular transfers, the
  half-transfer flag and bus errors are outside this model: such a channel is left as it
  is.  One step of the engine is one step of every channel, in channel order.
\<close>

definition item_width :: "bool \<Rightarrow> bool \<Rightarrow> nat" where
  "item_width b0 b1 = (if b1 then 4 else if b0 then 2 else 1)"

definition load_item :: "(32 word \<Rightarrow> 8 word) \<Rightarrow> 32 word \<Rightarrow> nat \<Rightarrow> 32 word" where
  "load_item m a w =
     (if w = 4 then load32 m a else if w = 2 then ucast (load16 m a) else ucast (m a))"

definition store_item :: "(32 word \<Rightarrow> 8 word) \<Rightarrow> 32 word \<Rightarrow> nat \<Rightarrow> 32 word \<Rightarrow> (32 word \<Rightarrow> 8 word)" where
  "store_item m a w x =
     (if w = 4
      then m(a := ucast x, a + 1 := ucast (drop_bit 8 x),
             a + 2 := ucast (drop_bit 16 x), a + 3 := ucast (drop_bit 24 x))
      else if w = 2 then m(a := ucast x, a + 1 := ucast (drop_bit 8 x))
      else m(a := ucast x))"

definition dma_channel_step :: "nat \<Rightarrow> dma_state \<Rightarrow> dma_state" where
  "dma_channel_step i s =
     (let c = CFGR s ! i
      in if rcc_dma1_clock s \<and> bit c 0 \<and> bit c 14 \<and> \<not> bit c 5 \<and> CNTR s ! i \<noteq> 0
         then (let pw = item_width (bit c 8) (bit c 9);
                   mw = item_width (bit c 10) (bit c 11);
                   p = PADDR s ! i;
                   m = MADDR s ! i;
                   ram1 = (if bit c 4 then store_item (ram s) p pw (load_item (ram s) m mw)
                           else store_item (ram s) m mw (load_item (ram s) p pw));
                   n = CNTR s ! i - 1
               in s\<lparr>ram := ram1,
                    PADDR := (PADDR s)[i := (if bit c 6 then p + of_nat pw else p)],
                    MADDR := (MADDR s)[i := (if bit c 7 then m + of_nat mw else m)],
                    CNTR := (CNTR s)[i := n],
                    INTFR := (if n = 0 then INTFR s OR push_bit (4 * i) 3 else INTFR s)\<rparr>)
         else s)"

definition dma_engine_step :: "dma_state \<Rightarrow> dma_state" where
  "dma_engine_step s = fold dma_channel_step [0..<7] s"

subsection \<open>Interrupt handlers\<close>

text \<open>
  The seven handlers are the same text up to the array index, the two interrupt masks
  and the channel passed to the callback.
\<close>

definition irq_handler :: "nat \<Rightarrow> 32 word \<Rightarrow> 32 word \<Rightarrow> nat \<Rightarrow> dma_state \<Rightarrow> dma_state" where
  "irq_handler idx it_tc it_te channel s =
     (let s1 = (if DMA_GetITStatus s it_tc
                then (let a = DMA_ClearITPendingBit it_tc s;
                          b = set_status idx DMA_STATUS_COMPLETE a
                      in case transfer_complete_callbacks b ! idx of
                           None \<Rightarrow> b
                         | Some f \<Rightarrow> invoke f channel b)
                else s)
      in if DMA_GetITStatus s1 it_te
         then (let a = DMA_ClearITPendingBit it_te s1;
                   b = set_status idx DMA_STATUS_ERROR a
               in case error_callbacks b ! idx of
                    None \<Rightarrow> b
                  | Some f \<Rightarrow> invoke f channel b)
         else s1)"

definition DMA1_Channel1_IRQHandler :: "dma_state \<Rightarrow> dma_state" where
  "DMA1_Channel1_IRQHandler = irq_handler 0 DMA1_IT_TC1 DMA1_IT_TE1 1"

definition DMA1_Channel2_IRQHandler :: "dma_state \<Rightarrow> dma_state" where
  "DMA1_Channel2_IRQHandler = irq_handler 1 DMA1_IT_TC2 DMA1_IT_TE2 2"

definition DMA1_Channel3_IRQHandler :: "dma_state \<Rightarrow> dma_state" where
  "DMA1_Channel3_IRQHandler = irq_handler 2 DMA1_IT_TC3 DMA1_IT_TE3 3"

definition DMA1_Channel4_IRQHandler :: "dma_state \<Rightarrow> dma_state" where
  "DMA1_Channel4_IRQHandler = irq_handler 3 DMA1_IT_TC4 DMA1_IT_TE4 4"

definition DMA1_Channel5_IRQHandler :: "dma_state \<Rightarrow> dma_state" where
  "DMA1_Channel5_IRQHandler = irq_handler 4 DMA1_IT_TC5 DMA1_IT_TE5 5"

definition DMA1_Channel6_IRQHandler :: "dma_state \<Rightarrow> dma_state" where
  "DMA1_Channel6_IRQHandler = irq_handler 5 DMA1_IT_TC6 DMA1_IT_TE6 6"

definition DMA1_Channel7_IRQHandler :: "dma_state \<Rightarrow> dma_state" where
  "DMA1_Channel7_IRQHandler = irq_handler 6 DMA1_IT_TC7 DMA1_IT_TE7 7"

text \<open>The handler that the vector table runs for channel \<open>n\<close>.\<close>

definition DMA1_Channel_IRQHandler :: "nat \<Rightarrow> dma_state \<Rightarrow> dma_state" where
  "DMA1_Channel_IRQHandler n =
     (if n = 1 then DMA1_Channel1_IRQHandler
      else if n = 2 then DMA1_Channel2_IRQHandler
      else if n = 3 then DMA1_Channel3_IRQHandler
      else if n = 4 then DMA1_Channel4_IRQHandler
      else if n = 5 then DMA1_Channel5_IRQHandler
      else if n = 6 then DMA1_Channel6_IRQHandler
      else DMA1_Channel7_IRQHandler)"

text \<open>The flag bits of channel \<open>n\<close> in \<open>INTFR\<close>, and a state for running examples.\<close>

definition tc_flag :: "nat \<Rightarrow> dma_state \<Rightarrow> bool" where
  "tc_flag n s \<longleftrightarrow> bit (INTFR s) ((n - 1) * 4 + 1)"

definition te_flag :: "nat \<Rightarrow> dma_state \<Rightarrow> bool" where
  "te_flag n s \<longleftrightarrow> bit (INTFR s) ((n - 1) * 4 + 3)"

definition dma_reset_state :: dma_state where
  "dma_reset_state =
     \<lparr>channel_status = replicate 7 DMA_STATUS_IDLE,
      transfer_complete_callbacks = replicate 7 None,
      error_callbacks = replicate 7 None,
      cb_trace = [],
      INTFR = 0,
      CFGR = replicate 7 0,
      CNTR = replicate 7 0,
      PADDR = replicate 7 0,
      MADDR = replicate 7 0,
      nvic_enabled = {},
      rcc_dma1_clock = False,
      ram = (\<lambda>a. 0)\<rparr>"

text \<open>
  While the engine copies \<open>n\<close> bytes from \<open>src\<close> to \<open>dst\<close> on channel 1, the state
  after \<open>k\<close> bytes is described by \<open>copying\<close>: the registers of channel 1, the bytes
  already written, the rest of the memory as it was in \<open>ram0\<close>, and the
  transfer-complete flag raised exactly at the end.
\<close>

definition copying ::
  "(32 word \<Rightarrow> 8 word) \<Rightarrow> 32 word \<Rightarrow> 32 word \<Rightarrow> nat \<Rightarrow> nat \<Rightarrow> dma_state \<Rightarrow> bool" where
  "copying ram0 src dst n k t \<longleftrightarrow>
     rcc_dma1_clock t
     \<and> length (channel_status t) = 7 \<and> length (CFGR t) = 7 \<and> length (CNTR t) = 7
     \<and> length (PADDR t) = 7 \<and> length (MADDR t) = 7
     \<and> CFGR t ! 0 AND 0x7FF1 = 0x60C1
     \<and> (\<forall>i. 1 \<le> i \<and> i < 7 \<longrightarrow> \<not> bit (CFGR t ! i) 0)
     \<and> unat (CNTR t ! 0) = n - k \<and> PADDR t ! 0 = src + of_nat k \<and> MADDR t ! 0 = dst + of_nat k
     \<and> (\<forall>j<k. ram t (dst + of_nat j) = ram0 (src + of_nat j))
     \<and> (\<forall>a. (\<forall>j<k. a \<noteq> dst + of_nat j) \<longrightarrow> ram t a = ram0 a)
     \<and> channel_status t ! 0 = DMA_STATUS_BUSY
     \<and> \<not> te_flag 1 t \<and> (tc_flag 1 t \<longleftrightarrow> k = n)"

text \<open>A state for running the copy: the reset state with three bytes in memory.\<close>

definition memcopy_example :: dma_state where
  "memcopy_example =
     dma_reset_state\<lparr>ram := (\<lambda>a. 0)(0x20000000 := 0x41, 0x20000001 := 0x42, 0x20000002 := 0x43)\<rparr>"

section \<open>SimpleFlash: verification\<close>

subsection \<open>The storage window\<close>

lemma FLASH_STORAGE_START_ADDR_eq: "FLASH_STORAGE_START_ADDR = 0x08003F80"
  by (simp add: FLASH_STORAGE_START_ADDR_def FLASH_BASE_ADDRESS_def FLASH_STORAGE_PAGE_START_def FLASH_PAGE_SIZE_def)

lemma FLASH_CONFIG_ADDR_eq: "FLASH_CONFIG_ADDR = 0x08003F80"
  by (simp add: FLASH_CONFIG_ADDR_def FLASH_BASE_ADDRESS_def FLASH_CONFIG_PAGE_def FLASH_PAGE_SIZE_def)

lemma Flash_IsAddressValid_iff:
  "Flash_IsAddressValid addr \<longleftrightarrow> 0x08003F80 \<le> addr \<and> addr < 0x08004000"
  by (simp add: Flash_IsAddressValid_def FLASH_STORAGE_START_ADDR_eq FLASH_STORAGE_SIZE_def
      FLASH_STORAGE_PAGE_COUNT_def FLASH_PAGE_SIZE_def)

text \<open>
  Claim C8.  For every address outside the 128-byte storage window
  \<open>[0x08003F80, 0x08004000)\<close> the three read functions return 0, and the three write
  functions and their three with-erase variants return a status other than \<open>FLASH_OK\<close>
  and hand back the device exactly as it was: no vendor call is made and no flash cell
  changes.
\<close>

theorem storage_window_guard:
  assumes "\<not> (0x08003F80 \<le> addr \<and> addr < 0x08004000)"
  shows "\<not> Flash_IsAddressValid addr
    \<and> Flash_ReadByte s addr = 0 \<and> Flash_ReadHalfWord s addr = 0 \<and> Flash_ReadWord s addr = 0
    \<and> fst (Flash_WriteByte v addr b s) \<noteq> FLASH_OK \<and> snd (Flash_WriteByte v addr b s) = s
    \<and> fst (Flash_WriteHalfWord v addr h s) \<noteq> FLASH_OK \<and> snd (Flash_WriteHalfWord v addr h s) = s
    \<and> fst (Flash_WriteWord v addr w s) \<noteq> FLASH_OK \<and> snd (Flash_WriteWord v addr w s) = s
    \<and> fst (Flash_WriteByteWithErase v addr b s) \<noteq> FLASH_OK
    \<and> snd (Flash_WriteByteWithErase v addr b s) = s
    \<and> fst (Flash_WriteHalfWordWithErase v addr h s) \<noteq> FLASH_OK
    \<and> snd (Flash_WriteHalfWordWithErase v addr h s) = s
    \<and> fst (Flash_WriteWordWithErase v addr w s) \<noteq> FLASH_OK
    \<and> snd (Flash_WriteWordWithErase v addr w s) = s"
proof -
  from assms have inv: "\<not> Flash_IsAddressValid addr"
    by (simp add: Flash_IsAddressValid_iff)
  then show ?thesis
    by (simp add: Flash_ReadByte_def Flash_ReadHalfWord_def Flash_ReadWord_def
        Flash_WriteByte_def Flash_WriteHalfWord_def Flash_WriteWord_def
        Flash_WriteByteWithErase_def Flash_WriteHalfWordWithErase_def
        Flash_WriteWordWithErase_def)
qed

theorem storage_window_guard_witness:
  "\<not> (0x08003F80 \<le> (0x08004000 :: 32 word) \<and> (0x08004000 :: 32 word) < 0x08004000)
   \<and> Flash_ReadWord erased_dev 0x08004000 = 0
   \<and> Flash_WriteWord sim_flash 0x08004000 0x12345678 erased_dev = (FLASH_ERROR_RANGE, erased_dev)
   \<and> Flash_WriteWordWithErase sim_flash 0x08004000 0x12345678 erased_dev = (FLASH_ERROR_ALIGN, erased_dev)"
proof -
  have h: "\<not> (0x08003F80 \<le> (0x08004000 :: 32 word) \<and> (0x08004000 :: 32 word) < 0x08004000)"
    by simp
  have v: "\<not> Flash_IsAddressValid 0x08004000"
    by (simp add: Flash_IsAddressValid_iff)
  from storage_window_guard [OF h, of erased_dev sim_flash _ _ "0x12345678"] h v show ?thesis
    by (simp add: Flash_WriteWord_def Flash_WriteWordWithErase_def)
qed

lemma Flash_ReadWord_valid:
  "Flash_IsAddressValid addr \<Longrightarrow> addr AND 0x03 = 0 \<Longrightarrow> Flash_ReadWord s addr = load32 (mem s) addr"
  by (simp add: Flash_ReadWord_def)

text \<open>
  Claim C6.  For a valid, 4-byte aligned address, \<open>Flash_WriteWord\<close> returns
  \<open>FLASH_OK\<close> exactly when the vendor call \<open>FLASH_ProgramWord\<close> returned
  \<open>FLASH_COMPLETE\<close> and the word read back at the address equals the data; it returns
  \<open>FLASH_ERROR_VERIFY\<close> when programming completed and the read-back differs; in every
  other case it returns what \<open>Flash_ConvertStatus\<close> assigns to the vendor status, with
  the table of the source.
\<close>

theorem Flash_WriteWord_status:
  assumes "Flash_IsAddressValid addr" and "addr AND 0x03 = 0"
    and "FLASH_ProgramWord v addr data (FLASH_Unlock s) = (fs, s2)"
  shows "(fst (Flash_WriteWord v addr data s) = FLASH_OK
            \<longleftrightarrow> fs = FLASH_COMPLETE \<and> load32 (mem s2) addr = data)
    \<and> (fs = FLASH_COMPLETE \<and> load32 (mem s2) addr \<noteq> data
            \<longrightarrow> fst (Flash_WriteWord v addr data s) = FLASH_ERROR_VERIFY)
    \<and> (\<not> (fs = FLASH_COMPLETE \<and> load32 (mem s2) addr \<noteq> data)
            \<longrightarrow> fst (Flash_WriteWord v addr data s) = Flash_ConvertStatus fs)
    \<and> Flash_ConvertStatus FLASH_BUSY = FLASH_ERROR_BUSY
    \<and> Flash_ConvertStatus FLASH_TIMEOUT = FLASH_ERROR_TIMEOUT
    \<and> Flash_ConvertStatus FLASH_ERROR_PG = FLASH_ERROR_WRITE
    \<and> Flash_ConvertStatus FLASH_ERROR_WRP = FLASH_ERROR_WRITE
    \<and> Flash_ConvertStatus FLASH_ALIGN_ERROR = FLASH_ERROR_ALIGN
    \<and> Flash_ConvertStatus FLASH_ADR_RANGE_ERROR = FLASH_ERROR_RANGE
    \<and> Flash_ConvertStatus FLASH_OP_RANGE_ERROR = FLASH_ERROR_RANGE
    \<and> Flash_ConvertStatus FLASH_STATUS_OTHER = FLASH_ERROR"
proof -
  have rb: "Flash_ReadWord (Flash_LockInternal s2) addr = load32 (mem s2) addr"
    using assms(1,2) by (simp add: Flash_ReadWord_def Flash_LockInternal_def FLASH_Lock_def)
  have r: "Flash_WriteWord v addr data s =
      (if fs = FLASH_COMPLETE \<and> load32 (mem s2) addr \<noteq> data
       then (FLASH_ERROR_VERIFY, Flash_LockInternal s2)
       else (Flash_ConvertStatus fs, Flash_LockInternal s2))"
    using assms rb by (simp add: Flash_WriteWord_def Flash_UnlockInternal_def Let_def)
  show ?thesis
    unfolding r by (cases fs) simp_all
qed


theorem Flash_WriteWord_status_witness:
  "Flash_IsAddressValid 0x08003F80 \<and> (0x08003F80 :: 32 word) AND 0x03 = 0
   \<and> fst (FLASH_ProgramWord sim_flash 0x08003F80 0x12345678 (FLASH_Unlock erased_dev)) = FLASH_COMPLETE
   \<and> fst (Flash_WriteWord sim_flash 0x08003F80 0x12345678 erased_dev) = FLASH_OK"
proof -
  let ?s2 = "snd (FLASH_ProgramWord sim_flash 0x08003F80 0x12345678 (FLASH_Unlock erased_dev))"
  have h1: "Flash_IsAddressValid 0x08003F80"
    by (simp add: Flash_IsAddressValid_iff)
  have h2: "(0x08003F80 :: 32 word) AND 0x03 = 0"
    by simp
  have h3: "FLASH_ProgramWord sim_flash 0x08003F80 0x12345678 (FLASH_Unlock erased_dev)
              = (FLASH_COMPLETE, ?s2)"
    by (simp add: sim_flash_def sim_program_word_def)
  have rb: "load32 (mem ?s2) 0x08003F80 = 0x12345678"
    by (simp add: sim_flash_def sim_program_word_def FLASH_Unlock_def erased_dev_def load32_def)
  have h4: "fst (FLASH_ProgramWord sim_flash 0x08003F80 0x12345678 (FLASH_Unlock erased_dev))
              = FLASH_COMPLETE"
    by (simp add: sim_flash_def sim_program_word_def)
  from Flash_WriteWord_status [OF h1 h2 h3] rb have "fst (Flash_WriteWord sim_flash 0x08003F80 0x12345678 erased_dev) = FLASH_OK"
    by simp
  with h1 h2 h4 show ?thesis
    by simp
qed

subsection \<open>Reading strings\<close>

lemma read_string_loop_spec:
  assumes "read_string_loop s addr buf i m = (n, b)"
    and "0 < m" and "m \<le> length buf" and "i \<le> m - 1"
    and "\<forall>j<i. buf ! j \<noteq> 0 \<and> buf ! j = Flash_ReadByte s (addr + of_nat j)"
  shows "n \<le> m - 1 \<and> length b = length buf \<and> b ! n = 0
    \<and> (\<forall>j<n. b ! j \<noteq> 0 \<and> b ! j = Flash_ReadByte s (addr + of_nat j))
    \<and> (\<forall>j. m \<le> j \<longrightarrow> b ! j = buf ! j)"
  using assms
proof (induction s addr buf i m arbitrary: n b rule: read_string_loop.induct)
  case (1 s addr buffer i max_len)
  let ?c = "Flash_ReadByte s (addr + of_nat i)"
  show ?case
  proof (cases "i < max_len - 1")
    case False
    with "1.prems" have i: "i = max_len - 1" by simp
    from "1.prems"(1) False have r: "n = i" "b = buffer[max_len - 1 := 0]"
      by (auto simp: read_string_loop.simps [of s addr buffer i max_len])
    from "1.prems" i r show ?thesis by (auto simp: nth_list_update)
  next
    case True
    note lt = True
    show ?thesis
    proof (cases "?c = 0")
      case True
      from "1.prems"(1) lt True have r: "n = i" "b = buffer[i := 0]"
        by (auto simp: read_string_loop.simps [of s addr buffer i max_len] Let_def)
      from "1.prems" lt r show ?thesis by (auto simp: nth_list_update)
    next
      case False
      from "1.prems"(1) lt False
      have rec: "read_string_loop s addr (buffer[i := ?c]) (i + 1) max_len = (n, b)"
        by (simp add: read_string_loop.simps [of s addr buffer i max_len] Let_def)
      have inv: "\<forall>j<i + 1. (buffer[i := ?c]) ! j \<noteq> 0
                   \<and> (buffer[i := ?c]) ! j = Flash_ReadByte s (addr + of_nat j)"
        using "1.prems" lt False by (auto simp: nth_list_update less_Suc_eq)
      have "n \<le> max_len - 1 \<and> length b = length (buffer[i := ?c]) \<and> b ! n = 0
        \<and> (\<forall>j<n. b ! j \<noteq> 0 \<and> b ! j = Flash_ReadByte s (addr + of_nat j))
        \<and> (\<forall>j. max_len \<le> j \<longrightarrow> b ! j = (buffer[i := ?c]) ! j)"
      proof (rule "1.IH" [OF lt refl refl False rec])
        show "0 < max_len" by (rule "1.prems")
        show "max_len \<le> length (buffer[i := ?c])" using "1.prems"(3) by simp
        show "i + 1 \<le> max_len - 1" using lt by simp
        show "\<forall>j<i + 1. (buffer[i := ?c]) ! j \<noteq> 0
                   \<and> (buffer[i := ?c]) ! j = Flash_ReadByte s (addr + of_nat j)"
          by (rule inv)
      qed
      with lt show ?thesis by (auto simp: nth_list_update)
    qed
  qed
qed

text \<open>
  Claim C10.  For a valid address, a buffer of at least \<open>max_len\<close> bytes and
  \<open>max_len > 0\<close>, \<open>Flash_ReadString\<close> returns a length \<open>n \<le> max_len - 1\<close> such that
  the buffer holds a zero byte at index \<open>n\<close> (inside its first \<open>max_len\<close> bytes) and
  exactly \<open>n\<close> non-zero bytes, the ones read from flash, before it; bytes from index
  \<open>max_len\<close> on are untouched.  For an invalid address, a \<open>NULL\<close> buffer or
  \<open>max_len = 0\<close> it returns 0 and the buffer as it was.
\<close>

theorem Flash_ReadString_terminates_string:
  "(Flash_IsAddressValid addr \<and> max_len \<noteq> 0 \<and> unat max_len \<le> length buf \<longrightarrow>
      (\<exists>n b. Flash_ReadString s addr (Some buf) max_len = (n, Some b)
         \<and> unat n \<le> unat max_len - 1 \<and> unat n < unat max_len
         \<and> length b = length buf \<and> b ! unat n = 0
         \<and> (\<forall>j<unat n. b ! j \<noteq> 0 \<and> b ! j = Flash_ReadByte s (addr + of_nat j))
         \<and> (\<forall>j. unat max_len \<le> j \<longrightarrow> b ! j = buf ! j)))
   \<and> (\<not> Flash_IsAddressValid addr \<or> buffer = None \<or> max_len = 0 \<longrightarrow>
        Flash_ReadString s addr buffer max_len = (0, buffer))"
proof (intro conjI impI)
  assume a: "Flash_IsAddressValid addr \<and> max_len \<noteq> 0 \<and> unat max_len \<le> length buf"
  then have m: "0 < unat max_len" by (simp add: unat_gt_0)
  obtain n b where l: "read_string_loop s addr buf 0 (unat max_len) = (n, b)"
    by (cases "read_string_loop s addr buf 0 (unat max_len)")
  have sp: "n \<le> unat max_len - 1 \<and> length b = length buf \<and> b ! n = 0
    \<and> (\<forall>j<n. b ! j \<noteq> 0 \<and> b ! j = Flash_ReadByte s (addr + of_nat j))
    \<and> (\<forall>j. unat max_len \<le> j \<longrightarrow> b ! j = buf ! j)"
    by (rule read_string_loop_spec [OF l m]) (use a in auto)
  have "unat max_len < 2 ^ 16" using unsigned_less [of max_len] by simp
  moreover from sp have "n \<le> unat max_len - 1" by blast
  ultimately have n16: "n < 2 ^ LENGTH(16)" using m by simp
  then have un: "unat (of_nat n :: 16 word) = n"
    by (simp add: unat_of_nat take_bit_nat_eq_self)
  have r: "Flash_ReadString s addr (Some buf) max_len = (of_nat n, Some b)"
    using a l by (simp add: Flash_ReadString_def)
  show "\<exists>n b. Flash_ReadString s addr (Some buf) max_len = (n, Some b)
         \<and> unat n \<le> unat max_len - 1 \<and> unat n < unat max_len
         \<and> length b = length buf \<and> b ! unat n = 0
         \<and> (\<forall>j<unat n. b ! j \<noteq> 0 \<and> b ! j = Flash_ReadByte s (addr + of_nat j))
         \<and> (\<forall>j. unat max_len \<le> j \<longrightarrow> b ! j = buf ! j)"
    apply (rule exI [of _ "of_nat n"], rule exI [of _ b])
    using r sp m un by auto
next
  assume "\<not> Flash_IsAddressValid addr \<or> buffer = None \<or> max_len = 0"
  then show "Flash_ReadString s addr buffer max_len = (0, buffer)"
    by (auto simp: Flash_ReadString_def)
qed


theorem Flash_ReadString_terminates_string_witness:
  "Flash_IsAddressValid 0x08003F80 \<and> (4 :: 16 word) \<noteq> 0
   \<and> unat (4 :: 16 word) \<le> length [9, 9, 9, 9, 9 :: 8 word]
   \<and> Flash_ReadString
        (erased_dev\<lparr>mem := (\<lambda>a. 0xFF)(0x08003F80 := 0x48, 0x08003F81 := 0x69, 0x08003F82 := 0)\<rparr>)
        0x08003F80 (Some [9, 9, 9, 9, 9]) 4 = (2, Some [0x48, 0x69, 0, 9, 9])
   \<and> Flash_ReadString erased_dev 0x08003F80 (Some [9, 9, 9, 9, 9]) 4 = (3, Some [0xFF, 0xFF, 0xFF, 0, 9])
   \<and> Flash_ReadString erased_dev 0x08004000 (Some [9, 9, 9, 9, 9]) 4 = (0, Some [9, 9, 9, 9, 9])
   \<and> unat (fst (Flash_ReadString
        (erased_dev\<lparr>mem := (\<lambda>a. 0xFF)(0x08003F80 := 0x48, 0x08003F81 := 0x69, 0x08003F82 := 0)\<rparr>)
        0x08003F80 (Some [9, 9, 9, 9, 9]) 4)) < unat (4 :: 16 word)"
proof -
  let ?d = "erased_dev\<lparr>mem := (\<lambda>a. 0xFF)(0x08003F80 := 0x48, 0x08003F81 := 0x69, 0x08003F82 := 0)\<rparr>"
  have v: "Flash_IsAddressValid 0x08003F80"
    by (simp add: Flash_IsAddressValid_iff)
  have nv: "\<not> Flash_IsAddressValid 0x08004000"
    by (simp add: Flash_IsAddressValid_iff)
  have e1: "Flash_ReadString ?d 0x08003F80 (Some [9, 9, 9, 9, 9]) 4 = (2, Some [0x48, 0x69, 0, 9, 9])"
    by (simp add: Flash_ReadString_def v read_string_loop.simps Flash_ReadByte_def
        Flash_IsAddressValid_iff Let_def)
  have e2: "Flash_ReadString erased_dev 0x08003F80 (Some [9, 9, 9, 9, 9]) 4
              = (3, Some [0xFF, 0xFF, 0xFF, 0, 9])"
    by (simp add: Flash_ReadString_def v read_string_loop.simps Flash_ReadByte_def
        Flash_IsAddressValid_iff Let_def erased_dev_def)
  from Flash_ReadString_terminates_string
         [of "0x08004000" 4 "[9, 9, 9, 9, 9]" erased_dev "Some [9, 9, 9, 9, 9]"] nv
  have e3: "Flash_ReadString erased_dev 0x08004000 (Some [9, 9, 9, 9, 9]) 4 = (0, Some [9, 9, 9, 9, 9])"
    by simp
  from Flash_ReadString_terminates_string [of "0x08003F80" 4 "[9, 9, 9, 9, 9]" ?d None] v
  have "\<exists>n b. Flash_ReadString ?d 0x08003F80 (Some [9, 9, 9, 9, 9]) 4 = (n, Some b)
          \<and> unat n < unat (4 :: 16 word)"
    by simp blast
  then have e4: "unat (fst (Flash_ReadString ?d 0x08003F80 (Some [9, 9, 9, 9, 9]) 4)) < unat (4 :: 16 word)"
    by auto
  from v e1 e2 e3 e4 show ?thesis by simp
qed

subsection \<open>Bytes, half-words and alignment\<close>

lemma load16_low: "ucast (load16 m a) = m a"
  by (rule bit_word_eqI) (auto simp: load16_def bit_simps dest: bit_imp_le_length)

lemma load16_high: "ucast (drop_bit 8 (load16 m a)) = m (a + 1)"
  by (rule bit_word_eqI) (auto simp: load16_def bit_simps dest: bit_imp_le_length)

lemma halfword_odd_low: "(ucast ((ucast (x :: 8 word) :: 16 word) OR push_bit 8 (ucast (d :: 8 word))) :: 8 word) = x"
  by (rule bit_word_eqI) (auto simp: bit_simps dest: bit_imp_le_length)

lemma halfword_odd_high: "(ucast (drop_bit 8 ((ucast (x :: 8 word) :: 16 word) OR push_bit 8 (ucast (d :: 8 word)))) :: 8 word) = d"
  by (rule bit_word_eqI) (auto simp: bit_simps dest: bit_imp_le_length)

lemma halfword_even_low: "(ucast (push_bit 8 (ucast (x :: 8 word) :: 16 word) OR ucast (d :: 8 word)) :: 8 word) = d"
  by (rule bit_word_eqI) (auto simp: bit_simps dest: bit_imp_le_length)

lemma halfword_even_high: "(ucast (drop_bit 8 (push_bit 8 (ucast (x :: 8 word) :: 16 word) OR ucast (d :: 8 word))) :: 8 word) = x"
  by (rule bit_word_eqI) (auto simp: bit_simps dest: bit_imp_le_length)

lemma and_not_one_split: "(a AND NOT 1) + (a AND 1) = (a :: 32 word)"
proof -
  have "(a AND NOT 1) + (a AND 1) = (a AND NOT 1) OR (a AND 1)"
    by (rule disjunctive_add) (auto simp: bit_simps)
  also have "\<dots> = a"
    by (rule bit_word_eqI) (auto simp: bit_simps)
  finally show ?thesis .
qed

lemma and_one_cases: "(a :: 32 word) AND 1 = 0 \<or> a AND 1 = 1"
  by (simp add: and_one_eq) (metis even_iff_mod_2_eq_zero odd_iff_mod_2_eq_one)

lemma align_even: "(a :: 32 word) AND 1 = 0 \<Longrightarrow> a AND NOT 1 = a"
  using and_not_one_split [of a] by simp

lemma align_odd: "(a :: 32 word) AND 1 \<noteq> 0 \<Longrightarrow> (a AND NOT 1) + 1 = a"
  using and_not_one_split [of a] and_one_cases [of a] by auto

lemma valid_unat:
  "Flash_IsAddressValid a \<longleftrightarrow> 134233984 \<le> unat a \<and> unat a < 134234112"
  by (simp add: Flash_IsAddressValid_iff word_le_nat_alt word_less_nat_alt)

lemma unat_add_of_nat:
  "unat (a :: 32 word) + n < 2 ^ 32 \<Longrightarrow> unat (a + of_nat n) = unat a + n"
  by (simp add: unat_word_ariths unat_of_nat mod_add_right_eq)

lemma unat_add_one:
  "unat (a :: 32 word) + 1 < 2 ^ 32 \<Longrightarrow> unat (a + 1) = unat a + 1"
  using unat_add_of_nat [of a 1] by simp

lemma odd_unat: "(a :: 32 word) AND 1 \<noteq> 0 \<longleftrightarrow> odd (unat a)"
  by (simp add: and_one_eq word_unat_eq_iff unat_mod even_iff_mod_2_eq_zero)

lemma valid_even_succ:
  assumes "Flash_IsAddressValid a" and "a AND 1 = 0"
  shows "Flash_IsAddressValid (a + 1)"
proof -
  from assms(2) have "even (unat a)" using odd_unat [of a] by simp
  then have "unat a \<noteq> 134234111" by auto
  with assms(1) show ?thesis
    by (simp add: valid_unat unat_add_one)
qed

lemma valid_odd_pred:
  assumes "Flash_IsAddressValid a" and "a AND 1 \<noteq> 0"
  shows "Flash_IsAddressValid (a AND NOT 1)"
proof -
  let ?b = "a AND NOT 1"
  from assms(2) have o: "odd (unat a)" by (simp add: odd_unat)
  have le: "unat ?b \<le> unat a"
    by (simp add: word_le_nat_alt [symmetric] word_and_le2)
  have "unat (?b + 1) = unat a" using align_odd [OF assms(2)] by simp
  moreover have "unat ?b + 1 < 2 ^ 32" using le assms(1) by (simp add: valid_unat)
  ultimately have e: "unat ?b + 1 = unat a" by (simp add: unat_add_one)
  from o have "unat a \<noteq> 134233984" by auto
  with assms(1) have "134233984 < unat a" "unat a < 134234112" by (simp_all add: valid_unat)
  with e have "134233984 \<le> unat ?b \<and> unat ?b < 134234112" by linarith
  then show ?thesis by (simp only: valid_unat)
qed


lemma Flash_ConvertStatus_OK: "Flash_ConvertStatus fs = FLASH_OK \<longleftrightarrow> fs = FLASH_COMPLETE"
  by (cases fs) simp_all

lemma Flash_WriteHalfWord_OK:
  assumes loc: "program_is_local v"
    and ok: "Flash_WriteHalfWord v a d s = (FLASH_OK, s')"
  shows "Flash_IsAddressValid a \<and> a AND 1 = 0 \<and> load16 (mem s') a = d
    \<and> (\<forall>b. b \<noteq> a \<and> b \<noteq> a + 1 \<longrightarrow> mem s' b = mem s b)"
proof -
  from ok have v: "Flash_IsAddressValid a"
    by (auto simp: Flash_WriteHalfWord_def split: if_splits)
  from ok v have al: "a AND 1 = 0"
    by (auto simp: Flash_WriteHalfWord_def split: if_splits)
  obtain fs s2 where p: "FLASH_ProgramHalfWord v a d (FLASH_Unlock s) = (fs, s2)"
    by (cases "FLASH_ProgramHalfWord v a d (FLASH_Unlock s)")
  have rb: "Flash_ReadHalfWord (Flash_LockInternal s2) a = load16 (mem s2) a"
    using v al by (simp add: Flash_ReadHalfWord_def Flash_LockInternal_def FLASH_Lock_def)
  from ok v al p rb have r: "(if fs = FLASH_COMPLETE \<and> load16 (mem s2) a \<noteq> d
       then (FLASH_ERROR_VERIFY, Flash_LockInternal s2)
       else (Flash_ConvertStatus fs, Flash_LockInternal s2)) = (FLASH_OK, s')"
    by (simp add: Flash_WriteHalfWord_def Flash_UnlockInternal_def Let_def)
  then have fs: "fs = FLASH_COMPLETE" and ld: "load16 (mem s2) a = d"
    and s': "s' = Flash_LockInternal s2"
    by (auto simp: Flash_ConvertStatus_OK split: if_splits)
  have m: "mem s' = mem s2" by (simp add: s' Flash_LockInternal_def FLASH_Lock_def)
  have fr: "\<forall>b. b \<noteq> a \<and> b \<noteq> a + 1 \<longrightarrow> mem s2 b = mem s b"
  proof (intro allI impI)
    fix b assume "b \<noteq> a \<and> b \<noteq> a + 1"
    with loc have "mem (snd (FLASH_ProgramHalfWord v a d (FLASH_Unlock s))) b = mem (FLASH_Unlock s) b"
      unfolding program_is_local_def by blast
    then show "mem s2 b = mem s b" using p by (simp add: FLASH_Unlock_def)
  qed
  from v al ld fr m show ?thesis by simp
qed

lemma Flash_WriteByte_OK:
  assumes loc: "program_is_local v"
    and ok: "Flash_WriteByte v a d s = (FLASH_OK, s')"
  shows "Flash_IsAddressValid a \<and> mem s' a = d \<and> (\<forall>b. b \<noteq> a \<longrightarrow> mem s' b = mem s b)"
proof -
  from ok have v: "Flash_IsAddressValid a"
    by (auto simp: Flash_WriteByte_def split: if_splits)
  show ?thesis
  proof (cases "a AND 1 = 0")
    case True
    let ?h = "push_bit 8 (ucast (Flash_ReadByte s (a + 1))) OR ucast d :: 16 word"
    from ok v True align_even [OF True]
    have w: "Flash_WriteHalfWord v a ?h s = (FLASH_OK, s')"
      by (simp add: Flash_WriteByte_def Let_def)
    from Flash_WriteHalfWord_OK [OF loc w]
    have ld: "load16 (mem s') a = ?h"
      and fr: "\<forall>b. b \<noteq> a \<and> b \<noteq> a + 1 \<longrightarrow> mem s' b = mem s b" by simp_all
    have v1: "Flash_IsAddressValid (a + 1)" by (rule valid_even_succ [OF v True])
    have rbq: "Flash_ReadByte s (a + 1) = mem s (a + 1)"
      using v1 by (simp add: Flash_ReadByte_def)
    have lo: "mem s' a = d"
      using load16_low [of "mem s'" a] by (simp only: ld halfword_even_low)
    have hi: "mem s' (a + 1) = mem s (a + 1)"
      using load16_high [of "mem s'" a] by (simp only: ld rbq halfword_even_high)
    from v lo hi fr show ?thesis by metis
  next
    case False
    let ?b = "a AND NOT 1"
    let ?h = "ucast (Flash_ReadByte s ?b) OR push_bit 8 (ucast d) :: 16 word"
    have a: "?b + 1 = a" by (rule align_odd [OF False])
    from ok v False have w: "Flash_WriteHalfWord v ?b ?h s = (FLASH_OK, s')"
      by (simp add: Flash_WriteByte_def Let_def)
    from Flash_WriteHalfWord_OK [OF loc w]
    have ld: "load16 (mem s') ?b = ?h"
      and fr: "\<forall>b. b \<noteq> ?b \<and> b \<noteq> ?b + 1 \<longrightarrow> mem s' b = mem s b" by simp_all
    have v1: "Flash_IsAddressValid ?b" by (rule valid_odd_pred [OF v False])
    have rbq: "Flash_ReadByte s ?b = mem s ?b"
      using v1 by (simp add: Flash_ReadByte_def)
    have lo: "mem s' ?b = mem s ?b"
      using load16_low [of "mem s'" ?b] by (simp only: ld rbq halfword_odd_low)
    have hi: "mem s' (?b + 1) = d"
      using load16_high [of "mem s'" ?b] by (simp only: ld halfword_odd_high)
    from v lo hi fr a show ?thesis by metis
  qed
qed

subsection \<open>Loops over bytes\<close>

lemma addr_offset_inj:
  assumes "j < 2 ^ 32" and "k < 2 ^ 32" and "(a :: 32 word) + of_nat j = a + of_nat k"
  shows "j = k"
proof -
  from assms(3) have "(of_nat j :: 32 word) = of_nat k" by simp
  then have "unat (of_nat j :: 32 word) = unat (of_nat k :: 32 word)" by simp
  with assms(1,2) show ?thesis by (simp add: unat_of_nat)
qed

lemma write_bytes_loop_OK:
  assumes "program_is_local v"
    and "write_bytes_loop v addr src i n s = (FLASH_OK, s')"
    and "n \<le> 2 ^ 32"
  shows "(\<forall>j. i \<le> j \<and> j < n \<longrightarrow> mem s' (addr + of_nat j) = src ! j)
    \<and> (\<forall>b. (\<forall>j. i \<le> j \<and> j < n \<longrightarrow> b \<noteq> addr + of_nat j) \<longrightarrow> mem s' b = mem s b)"
  using assms
proof (induction v addr src i n s rule: write_bytes_loop.induct)
  case (1 v addr src i n s)
  show ?case
  proof (cases "i < n")
    case False
    with "1.prems"(2) have "s' = s"
      by (simp add: write_bytes_loop.simps [of v addr src i n s])
    with False show ?thesis by auto
  next
    case True
    obtain st s1 where w: "Flash_WriteByte v (addr + of_nat i) (src ! i) s = (st, s1)"
      by (cases "Flash_WriteByte v (addr + of_nat i) (src ! i) s")
    from "1.prems"(2) True w have st: "st = FLASH_OK"
      by (auto simp: write_bytes_loop.simps [of v addr src i n s] split: if_splits)
    from "1.prems"(2) True w st
    have rec: "write_bytes_loop v addr src (i + 1) n s1 = (FLASH_OK, s')"
      by (simp add: write_bytes_loop.simps [of v addr src i n s])
    from Flash_WriteByte_OK [OF "1.prems"(1) w [unfolded st]]
    have here: "mem s1 (addr + of_nat i) = src ! i"
      and fr1: "\<forall>b. b \<noteq> addr + of_nat i \<longrightarrow> mem s1 b = mem s b" by simp_all
    have ih: "(\<forall>j. i + 1 \<le> j \<and> j < n \<longrightarrow> mem s' (addr + of_nat j) = src ! j)
      \<and> (\<forall>b. (\<forall>j. i + 1 \<le> j \<and> j < n \<longrightarrow> b \<noteq> addr + of_nat j) \<longrightarrow> mem s' b = mem s1 b)"
      by (rule "1.IH" [OF True refl w [symmetric] _ "1.prems"(1) rec "1.prems"(3)]) (simp add: st)
    have distinct: "\<forall>j. i + 1 \<le> j \<and> j < n \<longrightarrow> addr + of_nat i \<noteq> addr + of_nat j"
    proof (intro allI impI notI)
      fix j assume j: "i + 1 \<le> j \<and> j < n" and e: "addr + of_nat i = addr + of_nat j"
      from j "1.prems"(3) have "i < 2 ^ 32" "j < 2 ^ 32" by simp_all
      from addr_offset_inj [OF this e] j show False by simp
    qed
    show ?thesis
    proof (intro conjI allI impI)
      fix j assume j: "i \<le> j \<and> j < n"
      show "mem s' (addr + of_nat j) = src ! j"
      proof (cases "j = i")
        case True
        with ih distinct here show ?thesis by metis
      next
        case False
        with j have "i + 1 \<le> j \<and> j < n" by simp
        with ih show ?thesis by blast
      qed
    next
      fix b assume b: "\<forall>j. i \<le> j \<and> j < n \<longrightarrow> b \<noteq> addr + of_nat j"
      with True have "b \<noteq> addr + of_nat i" by auto
      with fr1 have "mem s1 b = mem s b" by blast
      moreover from b have "\<forall>j. i + 1 \<le> j \<and> j < n \<longrightarrow> b \<noteq> addr + of_nat j" by simp
      with ih have "mem s' b = mem s1 b" by blast
      ultimately show "mem s' b = mem s b" by simp
    qed
  qed
qed

lemma read_bytes_loop_spec:
  assumes "n \<le> length dest"
  shows "length (read_bytes_loop s addr dest i n) = length dest
    \<and> (\<forall>j. i \<le> j \<and> j < n \<longrightarrow>
          read_bytes_loop s addr dest i n ! j = Flash_ReadByte s (addr + of_nat j))
    \<and> (\<forall>j. j < i \<or> n \<le> j \<longrightarrow> read_bytes_loop s addr dest i n ! j = dest ! j)"
  using assms
proof (induction s addr dest i n rule: read_bytes_loop.induct)
  case (1 s addr dest i n)
  show ?case
  proof (cases "i < n")
    case False
    then show ?thesis by (auto simp: read_bytes_loop.simps [of s addr dest i n])
  next
    case True
    let ?d = "dest[i := Flash_ReadByte s (addr + of_nat i)]"
    have e: "read_bytes_loop s addr dest i n = read_bytes_loop s addr ?d (i + 1) n"
      using True by (simp add: read_bytes_loop.simps [of s addr dest i n])
    from "1.prems" have "n \<le> length ?d" by simp
    from "1.IH" [OF True this]
    have ih: "length (read_bytes_loop s addr ?d (i + 1) n) = length ?d
      \<and> (\<forall>j. i + 1 \<le> j \<and> j < n \<longrightarrow>
            read_bytes_loop s addr ?d (i + 1) n ! j = Flash_ReadByte s (addr + of_nat j))
      \<and> (\<forall>j. j < i + 1 \<or> n \<le> j \<longrightarrow> read_bytes_loop s addr ?d (i + 1) n ! j = ?d ! j)" .
    show ?thesis
    proof (intro conjI allI impI)
      show "length (read_bytes_loop s addr dest i n) = length dest"
        using ih by (simp add: e)
    next
      fix j assume j: "i \<le> j \<and> j < n"
      show "read_bytes_loop s addr dest i n ! j = Flash_ReadByte s (addr + of_nat j)"
      proof (cases "j = i")
        case True
        with ih have "read_bytes_loop s addr ?d (i + 1) n ! j = ?d ! j" by simp
        with True j "1.prems" show ?thesis by (simp add: e)
      next
        case False
        with j ih show ?thesis by (simp add: e)
      qed
    next
      fix j assume j: "j < i \<or> n \<le> j"
      with True have "j \<noteq> i" by auto
      moreover from j True have "j < i + 1 \<or> n \<le> j" by auto
      with ih have "read_bytes_loop s addr ?d (i + 1) n ! j = ?d ! j" by blast
      ultimately show "read_bytes_loop s addr dest i n ! j = dest ! j" by (simp add: e)
    qed
  qed
qed

lemma crc16_loop_cong:
  assumes "\<forall>j. i \<le> j \<and> j < len \<longrightarrow> d1 ! j = d2 ! j"
  shows "crc16_loop d1 i len crc = crc16_loop d2 i len crc"
  using assms
proof (induction d1 i len crc rule: crc16_loop.induct)
  case (1 data i len crc)
  show ?case
  proof (cases "i < len")
    case False
    then show ?thesis
      by (simp add: crc16_loop.simps [of data i len crc] crc16_loop.simps [of d2 i len crc])
  next
    case True
    with "1.prems" have e: "data ! i = d2 ! i" by simp
    from "1.prems" have "\<forall>j. i + 1 \<le> j \<and> j < len \<longrightarrow> data ! j = d2 ! j" by simp
    from "1.IH" [OF True this] True e show ?thesis
      by (simp add: crc16_loop.simps [of data i len crc] crc16_loop.simps [of d2 i len crc])
  qed
qed

subsection \<open>Configuration save and load\<close>

lemma unat_config_addr: "unat FLASH_CONFIG_ADDR = 134233984"
  by (simp add: FLASH_CONFIG_ADDR_eq)

lemma unat_config_offset:
  "j < 128 \<Longrightarrow> unat (FLASH_CONFIG_ADDR + of_nat j) = 134233984 + j"
  using unat_add_of_nat [of FLASH_CONFIG_ADDR j] by (simp add: unat_config_addr)

lemma config_offset_valid: "j < 128 \<Longrightarrow> Flash_IsAddressValid (FLASH_CONFIG_ADDR + of_nat j)"
  by (simp add: valid_unat unat_config_offset)

lemma config_size_bound: "FLASH_CONFIG_SIZE - 2 = 62"
  by (simp add: FLASH_CONFIG_SIZE_def)

lemma sz_bounds:
  assumes "sz \<noteq> 0" and "\<not> (sz :: 16 word) > 62"
  shows "0 < unat sz \<and> unat sz \<le> 62 \<and> \<not> ucast sz > FLASH_PAGE_SIZE"
proof -
  from assms(1) have a: "0 < unat sz" by (simp add: unat_gt_0)
  from assms(2) have b: "unat sz \<le> 62" by (simp add: word_less_nat_alt not_less)
  have "unat sz < 2 ^ 16" using unsigned_less [of sz] by simp
  then have "unat sz < 2 ^ 32" by simp
  then have c: "unat (ucast sz :: 32 word) = unat sz"
    by (simp add: unsigned_ucast_eq take_bit_nat_eq_self_iff)
  have "\<not> ucast sz > FLASH_PAGE_SIZE"
    using b by (simp add: word_less_nat_alt c FLASH_PAGE_SIZE_def)
  with a b show ?thesis by simp
qed

lemma unat_config_ucast:
  "unat (sz :: 16 word) \<le> 62 \<Longrightarrow> unat (FLASH_CONFIG_ADDR + ucast sz) = 134233984 + unat sz"
  using unat_config_offset [of "unat sz"] by simp

lemma Flash_SaveConfig_unfold:
  assumes "sz \<noteq> 0" and "\<not> sz > 62"
    and "Flash_ErasePage v FLASH_CONFIG_PAGE s = (st1, s1)"
    and "Flash_WriteStruct v FLASH_CONFIG_ADDR (Some p) sz s1 = (st2, s2)"
  shows "Flash_SaveConfig v (Some p) sz s =
    (if st1 \<noteq> FLASH_OK then (st1, s1)
     else if st2 \<noteq> FLASH_OK then (st2, s2)
     else Flash_WriteHalfWord v (FLASH_CONFIG_ADDR + ucast sz) (Flash_CalculateCRC16 p sz) s2)"
  using assms by (simp add: Flash_SaveConfig_def config_size_bound Let_def)

lemma Flash_SaveConfig_OK:
  assumes loc: "program_is_local v"
    and save: "Flash_SaveConfig v (Some p) sz s = (FLASH_OK, s')"
  shows "sz \<noteq> 0 \<and> \<not> sz > 62 \<and> (FLASH_CONFIG_ADDR + ucast sz) AND 1 = 0
    \<and> (\<forall>j<unat sz. mem s' (FLASH_CONFIG_ADDR + of_nat j) = p ! j)
    \<and> load16 (mem s') (FLASH_CONFIG_ADDR + ucast sz) = Flash_CalculateCRC16 p sz"
proof -
  have g: "\<not> (sz = 0 \<or> sz > 62)"
  proof
    assume "sz = 0 \<or> sz > 62"
    then have "Flash_SaveConfig v (Some p) sz s = (FLASH_ERROR_INVALID, s)"
      by (simp add: Flash_SaveConfig_def config_size_bound)
    with save show False by simp
  qed
  then have nz: "sz \<noteq> 0" and le: "\<not> sz > 62" by simp_all
  note b = sz_bounds [OF nz le]
  obtain st1 s1 where er: "Flash_ErasePage v FLASH_CONFIG_PAGE s = (st1, s1)"
    by (cases "Flash_ErasePage v FLASH_CONFIG_PAGE s")
  obtain st2 s2 where ws: "Flash_WriteStruct v FLASH_CONFIG_ADDR (Some p) sz s1 = (st2, s2)"
    by (cases "Flash_WriteStruct v FLASH_CONFIG_ADDR (Some p) sz s1")
  note u = save [unfolded Flash_SaveConfig_unfold [OF nz le er ws]]
  from u have st1: "st1 = FLASH_OK" by (cases "st1 = FLASH_OK") simp_all
  from u st1 have st2: "st2 = FLASH_OK" by (cases "st2 = FLASH_OK") simp_all
  from u st1 st2
  have wh: "Flash_WriteHalfWord v (FLASH_CONFIG_ADDR + ucast sz) (Flash_CalculateCRC16 p sz) s2
              = (FLASH_OK, s')"
    by simp
  have v0: "Flash_IsAddressValid FLASH_CONFIG_ADDR"
    using config_offset_valid [of 0] by simp
  from ws st2 nz b v0
  have wl: "write_bytes_loop v FLASH_CONFIG_ADDR p 0 (unat sz) s1 = (FLASH_OK, s2)"
    by (simp add: Flash_WriteStruct_def)
  have "unat sz \<le> 2 ^ 32" using b by simp
  from write_bytes_loop_OK [OF loc wl this]
  have data: "\<forall>j. j < unat sz \<longrightarrow> mem s2 (FLASH_CONFIG_ADDR + of_nat j) = p ! j" by simp
  from Flash_WriteHalfWord_OK [OF loc wh]
  have al: "(FLASH_CONFIG_ADDR + ucast sz) AND 1 = 0"
    and crc: "load16 (mem s') (FLASH_CONFIG_ADDR + ucast sz) = Flash_CalculateCRC16 p sz"
    and fr: "\<forall>b. b \<noteq> FLASH_CONFIG_ADDR + ucast sz \<and> b \<noteq> FLASH_CONFIG_ADDR + ucast sz + 1
               \<longrightarrow> mem s' b = mem s2 b"
    by simp_all
  from b have u2: "unat (FLASH_CONFIG_ADDR + ucast sz) = 134233984 + unat sz"
    by (simp add: unat_config_ucast)
  from b have u3: "unat (FLASH_CONFIG_ADDR + ucast sz + 1) = 134233984 + unat sz + 1"
    using unat_add_one [of "FLASH_CONFIG_ADDR + ucast sz"] by (simp add: u2)
  have keep: "\<forall>j<unat sz. mem s' (FLASH_CONFIG_ADDR + of_nat j) = p ! j"
  proof (intro allI impI)
    fix j assume j: "j < unat sz"
    from j b have u1: "unat (FLASH_CONFIG_ADDR + of_nat j) = 134233984 + j"
      by (simp add: unat_config_offset)
    have n1: "FLASH_CONFIG_ADDR + of_nat j \<noteq> FLASH_CONFIG_ADDR + ucast sz"
    proof
      assume "FLASH_CONFIG_ADDR + of_nat j = FLASH_CONFIG_ADDR + ucast sz"
      then have "unat (FLASH_CONFIG_ADDR + of_nat j) = unat (FLASH_CONFIG_ADDR + ucast sz)"
        by (rule arg_cong)
      with u1 u2 j show False by simp
    qed
    have n2: "FLASH_CONFIG_ADDR + of_nat j \<noteq> FLASH_CONFIG_ADDR + ucast sz + 1"
    proof
      assume "FLASH_CONFIG_ADDR + of_nat j = FLASH_CONFIG_ADDR + ucast sz + 1"
      then have "unat (FLASH_CONFIG_ADDR + of_nat j) = unat (FLASH_CONFIG_ADDR + ucast sz + 1)"
        by (rule arg_cong)
      with u1 u3 j show False by simp
    qed
    from fr n1 n2 have "mem s' (FLASH_CONFIG_ADDR + of_nat j) = mem s2 (FLASH_CONFIG_ADDR + of_nat j)"
      by blast
    with data j show "mem s' (FLASH_CONFIG_ADDR + of_nat j) = p ! j" by simp
  qed
  from nz le al keep crc show ?thesis by simp
qed

lemma Flash_LoadConfig_eq:
  assumes nz: "sz \<noteq> 0" and le: "\<not> sz > 62" and lq: "unat sz \<le> length q"
  shows "Flash_LoadConfig s (Some q) sz =
    (Flash_ReadHalfWord s (FLASH_CONFIG_ADDR + ucast sz)
       = Flash_CalculateCRC16 (read_bytes_loop s FLASH_CONFIG_ADDR q 0 (unat sz)) sz,
     Some (read_bytes_loop s FLASH_CONFIG_ADDR q 0 (unat sz)))"
proof -
  note b = sz_bounds [OF nz le]
  have v0: "Flash_IsAddressValid FLASH_CONFIG_ADDR"
    using config_offset_valid [of 0] by simp
  have rs: "Flash_ReadStruct s FLASH_CONFIG_ADDR (Some q) sz
      = (FLASH_OK, Some (read_bytes_loop s FLASH_CONFIG_ADDR q 0 (unat sz)))"
    using nz b v0 by (simp add: Flash_ReadStruct_def)
  show ?thesis
    using nz le by (simp add: Flash_LoadConfig_def config_size_bound rs Let_def)
qed

lemma read_config_bytes:
  assumes nz: "sz \<noteq> 0" and le: "\<not> (sz :: 16 word) > 62" and lq: "unat sz \<le> length q"
  shows "read_bytes_loop s FLASH_CONFIG_ADDR q 0 (unat sz)
    = map (\<lambda>j. mem s (FLASH_CONFIG_ADDR + of_nat j)) [0..<unat sz] @ drop (unat sz) q"
proof -
  note b = sz_bounds [OF nz le]
  let ?r = "read_bytes_loop s FLASH_CONFIG_ADDR q 0 (unat sz)"
  from read_bytes_loop_spec [OF lq, of s FLASH_CONFIG_ADDR 0]
  have len: "length ?r = length q"
    and rd: "\<forall>j. j < unat sz \<longrightarrow> ?r ! j = Flash_ReadByte s (FLASH_CONFIG_ADDR + of_nat j)"
    and rest: "\<forall>j. unat sz \<le> j \<longrightarrow> ?r ! j = q ! j"
    by simp_all
  show ?thesis
  proof (rule nth_equalityI)
    show "length ?r = length (map (\<lambda>j. mem s (FLASH_CONFIG_ADDR + of_nat j)) [0..<unat sz]
                               @ drop (unat sz) q)"
      using len lq by simp
  next
    fix i assume i: "i < length ?r"
    show "?r ! i = (map (\<lambda>j. mem s (FLASH_CONFIG_ADDR + of_nat j)) [0..<unat sz]
                     @ drop (unat sz) q) ! i"
    proof (cases "i < unat sz")
      case True
      with b have "Flash_IsAddressValid (FLASH_CONFIG_ADDR + of_nat i)"
        by (simp add: config_offset_valid)
      with rd True show ?thesis by (simp add: nth_append Flash_ReadByte_def)
    next
      case False
      with rest i len lq show ?thesis by (simp add: nth_append)
    qed
  qed
qed

text \<open>
  Claim C1.  For every buffer \<open>p\<close> and every size with \<open>0 < size \<le> 62\<close>: if
  \<open>Flash_SaveConfig\<close> returns \<open>FLASH_OK\<close>, then \<open>Flash_LoadConfig\<close> with the same size,
  run on the device that the save left behind, returns true, and the first \<open>size\<close> bytes
  of the destination buffer are those of \<open>p\<close>.  The device is any vendor driver whose
  half-word programming leaves other cells alone.
\<close>

theorem config_round_trip:
  assumes loc: "program_is_local v"
    and pos: "0 < sz" and max: "sz \<le> 62"
    and lp: "unat sz \<le> length p" and lq: "unat sz \<le> length q"
    and save: "Flash_SaveConfig v (Some p) sz s = (FLASH_OK, s')"
  shows "Flash_LoadConfig s' (Some q) sz = (True, Some (take (unat sz) p @ drop (unat sz) q))"
proof -
  from pos have nz: "sz \<noteq> 0" by auto
  from max have le: "\<not> sz > 62" by (simp add: not_less)
  note b = sz_bounds [OF nz le]
  let ?a = "FLASH_CONFIG_ADDR + ucast sz"
  let ?r = "read_bytes_loop s' FLASH_CONFIG_ADDR q 0 (unat sz)"
  from Flash_SaveConfig_OK [OF loc save]
  have al: "?a AND 1 = 0"
    and data: "\<forall>j<unat sz. mem s' (FLASH_CONFIG_ADDR + of_nat j) = p ! j"
    and crc: "load16 (mem s') ?a = Flash_CalculateCRC16 p sz"
    by simp_all
  have "map (\<lambda>j. mem s' (FLASH_CONFIG_ADDR + of_nat j)) [0..<unat sz] = take (unat sz) p"
    using data lp by (intro nth_equalityI) simp_all
  with read_config_bytes [OF nz le lq, of s']
  have r: "?r = take (unat sz) p @ drop (unat sz) q" by simp
  have "Flash_IsAddressValid ?a"
    using b config_offset_valid [of "unat sz"] by simp
  with al have rh: "Flash_ReadHalfWord s' ?a = Flash_CalculateCRC16 p sz"
    by (simp add: Flash_ReadHalfWord_def crc)
  have "\<forall>j. 0 \<le> j \<and> j < unat sz \<longrightarrow> ?r ! j = p ! j"
    using lp by (simp add: r nth_append)
  then have "Flash_CalculateCRC16 ?r sz = Flash_CalculateCRC16 p sz"
    unfolding Flash_CalculateCRC16_def by (rule crc16_loop_cong)
  with rh r show ?thesis
    by (simp add: Flash_LoadConfig_eq [OF nz le lq])
qed

lemma sim_flash_local: "program_is_local sim_flash"
  by (simp add: program_is_local_def sim_flash_def sim_program_halfword_def)

lemma sim_save_ok: "fst (Flash_SaveConfig sim_flash (Some [1, 2, 3, 4]) 4 erased_dev) = FLASH_OK"
  by code_simp

theorem config_round_trip_witness:
  "program_is_local sim_flash \<and> (0 :: 16 word) < 4 \<and> (4 :: 16 word) \<le> 62
   \<and> fst (Flash_SaveConfig sim_flash (Some [1, 2, 3, 4]) 4 erased_dev) = FLASH_OK
   \<and> Flash_LoadConfig (snd (Flash_SaveConfig sim_flash (Some [1, 2, 3, 4]) 4 erased_dev))
        (Some [0, 0, 0, 0, 9]) 4 = (True, Some [1, 2, 3, 4, 9])"
proof -
  let ?s' = "snd (Flash_SaveConfig sim_flash (Some [1, 2, 3, 4]) 4 erased_dev)"
  have save: "Flash_SaveConfig sim_flash (Some [1, 2, 3, 4]) 4 erased_dev = (FLASH_OK, ?s')"
    using sim_save_ok by (simp add: prod_eq_iff)
  have "Flash_LoadConfig ?s' (Some [0, 0, 0, 0, 9]) 4
          = (True, Some (take (unat (4 :: 16 word)) [1, 2, 3, 4] @ drop (unat (4 :: 16 word)) [0, 0, 0, 0, 9]))"
    by (rule config_round_trip [OF sim_flash_local _ _ _ _ save]) simp_all
  then show ?thesis using sim_flash_local sim_save_ok by simp
qed

text \<open>
  The checksum is the bitwise CRC-16 with polynomial \<open>0x1021\<close>, initial value
  \<open>0xFFFF\<close>, most significant bit first and no final inversion: the empty input gives
  the initial value, and the ASCII digits \<open>123456789\<close> give the published check value
  \<open>0x29B1\<close> of that parameter set.
\<close>

lemma crc16_initial_value: "Flash_CalculateCRC16 data 0 = 0xFFFF"
  by (simp add: Flash_CalculateCRC16_def crc16_loop.simps)

lemma crc16_check_value:
  "Flash_CalculateCRC16 [0x31, 0x32, 0x33, 0x34, 0x35, 0x36, 0x37, 0x38, 0x39] 9 = 0x29B1"
  by code_simp

lemma odd_unat16: "(a :: 16 word) AND 1 \<noteq> 0 \<longleftrightarrow> odd (unat a)"
  by (simp add: and_one_eq word_unat_eq_iff unat_mod even_iff_mod_2_eq_zero)

lemma config_crc_addr_even:
  assumes "unat (sz :: 16 word) \<le> 62" and "sz AND 1 = 0"
  shows "(FLASH_CONFIG_ADDR + ucast sz) AND 1 = 0"
proof -
  from assms(2) have "even (unat sz)" using odd_unat16 [of sz] by simp
  then have "even (unat (FLASH_CONFIG_ADDR + ucast sz))"
    by (simp add: unat_config_ucast [OF assms(1)])
  then show ?thesis using odd_unat [of "FLASH_CONFIG_ADDR + ucast sz"] by simp
qed

text \<open>
  Even sizes.  For a non-\<open>NULL\<close> buffer and every even size with \<open>0 < size \<le> 62\<close>,
  \<open>Flash_LoadConfig\<close> returns true exactly when the 16-bit value stored at
  \<open>FLASH_CONFIG_ADDR + size\<close> equals the checksum of the \<open>size\<close> bytes stored at
  \<open>FLASH_CONFIG_ADDR\<close>; for a \<open>NULL\<close> buffer, size 0 or a size above 62 it returns
  false.
\<close>

theorem Flash_LoadConfig_checks_crc:
  "(0 < sz \<and> sz \<le> 62 \<and> sz AND 1 = 0 \<and> unat sz \<le> length buf \<longrightarrow>
      (fst (Flash_LoadConfig s (Some buf) sz) \<longleftrightarrow>
         load16 (mem s) (FLASH_CONFIG_ADDR + ucast sz)
           = Flash_CalculateCRC16 (map (\<lambda>j. mem s (FLASH_CONFIG_ADDR + of_nat j)) [0..<unat sz]) sz))
   \<and> (ptr = None \<or> sz = 0 \<or> sz > 62 \<longrightarrow> Flash_LoadConfig s ptr sz = (False, ptr))"
proof (intro conjI impI)
  assume a: "0 < sz \<and> sz \<le> 62 \<and> sz AND 1 = 0 \<and> unat sz \<le> length buf"
  then have nz: "sz \<noteq> 0" and le: "\<not> sz > 62" and ev: "sz AND 1 = 0"
    and lq: "unat sz \<le> length buf"
    by (auto simp: not_less)
  note b = sz_bounds [OF nz le]
  let ?a = "FLASH_CONFIG_ADDR + ucast sz"
  let ?m = "map (\<lambda>j. mem s (FLASH_CONFIG_ADDR + of_nat j)) [0..<unat sz]"
  let ?r = "read_bytes_loop s FLASH_CONFIG_ADDR buf 0 (unat sz)"
  have va: "Flash_IsAddressValid ?a"
    using b by (simp add: valid_unat unat_config_ucast)
  have al: "?a AND 1 = 0" using b ev by (simp add: config_crc_addr_even)
  from va al have rh: "Flash_ReadHalfWord s ?a = load16 (mem s) ?a"
    by (simp add: Flash_ReadHalfWord_def)
  have r: "?r = ?m @ drop (unat sz) buf" by (rule read_config_bytes [OF nz le lq])
  have "\<forall>j. 0 \<le> j \<and> j < unat sz \<longrightarrow> ?r ! j = ?m ! j"
    unfolding r by (simp add: nth_append)
  then have "Flash_CalculateCRC16 ?r sz = Flash_CalculateCRC16 ?m sz"
    unfolding Flash_CalculateCRC16_def by (rule crc16_loop_cong)
  with rh show "fst (Flash_LoadConfig s (Some buf) sz) \<longleftrightarrow>
      load16 (mem s) ?a = Flash_CalculateCRC16 ?m sz"
    by (simp add: Flash_LoadConfig_eq [OF nz le lq])
next
  assume "ptr = None \<or> sz = 0 \<or> sz > 62"
  then show "Flash_LoadConfig s ptr sz = (False, ptr)"
    by (auto simp: Flash_LoadConfig_def config_size_bound)
qed

theorem Flash_LoadConfig_checks_crc_witness:
  "(0 :: 16 word) < 4 \<and> (4 :: 16 word) \<le> 62 \<and> (4 :: 16 word) AND 1 = 0
   \<and> unat (4 :: 16 word) \<le> length [0, 0, 0, 0 :: 8 word]
   \<and> fst (Flash_LoadConfig erased_dev (Some [0, 0, 0, 0]) 4)
        = (load16 (mem erased_dev) (FLASH_CONFIG_ADDR + ucast (4 :: 16 word))
            = Flash_CalculateCRC16 [0xFF, 0xFF, 0xFF, 0xFF] 4)
   \<and> Flash_LoadConfig erased_dev None 4 = (False, None)
   \<and> Flash_LoadConfig erased_dev (Some [0]) 63 = (False, Some [0])"
proof -
  have m: "map (\<lambda>j. mem erased_dev (FLASH_CONFIG_ADDR + of_nat j)) [0..<unat (4 :: 16 word)]
             = [0xFF, 0xFF, 0xFF, 0xFF]"
    by (simp add: erased_dev_def upt_conv_Cons)
  have h: "(0 :: 16 word) < 4 \<and> (4 :: 16 word) \<le> 62 \<and> (4 :: 16 word) AND 1 = 0
             \<and> unat (4 :: 16 word) \<le> length [0, 0, 0, 0 :: 8 word]"
    by simp
  from Flash_LoadConfig_checks_crc [of 4 "[0, 0, 0, 0]" erased_dev None, THEN conjunct1, rule_format, OF h]
  have e1: "fst (Flash_LoadConfig erased_dev (Some [0, 0, 0, 0]) 4)
        = (load16 (mem erased_dev) (FLASH_CONFIG_ADDR + ucast (4 :: 16 word))
            = Flash_CalculateCRC16 [0xFF, 0xFF, 0xFF, 0xFF] 4)"
    unfolding m .
  from Flash_LoadConfig_checks_crc [of 4 "[]" erased_dev None, THEN conjunct2]
  have e2: "Flash_LoadConfig erased_dev None 4 = (False, None)" by simp
  from Flash_LoadConfig_checks_crc [of 63 "[]" erased_dev "Some [0]", THEN conjunct2]
  have e3: "Flash_LoadConfig erased_dev (Some [0]) 63 = (False, Some [0])" by simp
  from h e1 e2 e3 show ?thesis by blast
qed

text \<open>
  Odd sizes.  The size guard admits every size from 1 to 62, but for an odd size the
  address \<open>FLASH_CONFIG_ADDR + size\<close> is odd, \<open>Flash_ReadHalfWord\<close> refuses it and yields
  0, and the stored checksum is never looked at: the result only says whether the
  checksum of the data is 0.
\<close>

lemma config_crc_addr_odd:
  assumes "unat (sz :: 16 word) \<le> 62" and "sz AND 1 \<noteq> 0"
  shows "(FLASH_CONFIG_ADDR + ucast sz) AND 1 \<noteq> 0"
proof -
  from assms(2) have "odd (unat sz)" using odd_unat16 [of sz] by simp
  then have "odd (unat (FLASH_CONFIG_ADDR + ucast sz))"
    by (simp add: unat_config_ucast [OF assms(1)])
  then show ?thesis using odd_unat [of "FLASH_CONFIG_ADDR + ucast sz"] by simp
qed

lemma Flash_LoadConfig_odd_size:
  assumes "0 < sz" and "sz \<le> 62" and "sz AND 1 \<noteq> 0" and "unat sz \<le> length buf"
  shows "fst (Flash_LoadConfig s (Some buf) sz) \<longleftrightarrow>
    Flash_CalculateCRC16 (map (\<lambda>j. mem s (FLASH_CONFIG_ADDR + of_nat j)) [0..<unat sz]) sz = 0"
proof -
  from assms have nz: "sz \<noteq> 0" and le: "\<not> sz > 62" and lq: "unat sz \<le> length buf"
    by (auto simp: not_less)
  note b = sz_bounds [OF nz le]
  let ?a = "FLASH_CONFIG_ADDR + ucast sz"
  let ?m = "map (\<lambda>j. mem s (FLASH_CONFIG_ADDR + of_nat j)) [0..<unat sz]"
  let ?r = "read_bytes_loop s FLASH_CONFIG_ADDR buf 0 (unat sz)"
  have "?a AND 1 \<noteq> 0" using b assms(3) by (simp add: config_crc_addr_odd)
  then have rh: "Flash_ReadHalfWord s ?a = 0"
    by (simp add: Flash_ReadHalfWord_def)
  have r: "?r = ?m @ drop (unat sz) buf" by (rule read_config_bytes [OF nz le lq])
  have "\<forall>j. 0 \<le> j \<and> j < unat sz \<longrightarrow> ?r ! j = ?m ! j"
    unfolding r by (simp add: nth_append)
  then have "Flash_CalculateCRC16 ?r sz = Flash_CalculateCRC16 ?m sz"
    unfolding Flash_CalculateCRC16_def by (rule crc16_loop_cong)
  with rh show ?thesis
    by (auto simp: Flash_LoadConfig_eq [OF nz le lq])
qed

lemma crc_zero_dev_load:
  "Flash_LoadConfig crc_zero_dev (Some [0xAA, 0xAA, 0xAA]) 3 = (True, Some [0xFF, 0xFF, 0x00])"
proof -
  have rb: "read_bytes_loop crc_zero_dev FLASH_CONFIG_ADDR [0xAA, 0xAA, 0xAA] 0 (unat (3 :: 16 word))
              = [0xFF, 0xFF, 0x00]"
    by code_simp
  have rh: "Flash_ReadHalfWord crc_zero_dev (FLASH_CONFIG_ADDR + ucast (3 :: 16 word)) = 0"
    by code_simp
  have crc: "Flash_CalculateCRC16 [0xFF, 0xFF, 0x00] 3 = 0"
    by code_simp
  have "Flash_LoadConfig crc_zero_dev (Some [0xAA, 0xAA, 0xAA]) 3 =
    (Flash_ReadHalfWord crc_zero_dev (FLASH_CONFIG_ADDR + ucast (3 :: 16 word))
       = Flash_CalculateCRC16
           (read_bytes_loop crc_zero_dev FLASH_CONFIG_ADDR [0xAA, 0xAA, 0xAA] 0 (unat (3 :: 16 word))) 3,
     Some (read_bytes_loop crc_zero_dev FLASH_CONFIG_ADDR [0xAA, 0xAA, 0xAA] 0 (unat (3 :: 16 word))))"
    by (rule Flash_LoadConfig_eq) simp_all
  then show ?thesis by (simp only: rb rh crc simp_thms)
qed

lemma crc_odd_dev_stored_crc_not_read:
  "Flash_ReadHalfWord crc_odd_dev (FLASH_CONFIG_ADDR + ucast (1 :: 16 word)) = 0"
  by code_simp

text \<open>
  Claim C2.  The claim says that for every size with \<open>0 < size \<le> 62\<close> the result of
  \<open>Flash_LoadConfig\<close> is true exactly when the 16-bit value stored at
  \<open>FLASH_CONFIG_ADDR + size\<close> equals the checksum of the stored bytes.  The code breaks
  this at odd sizes, in both directions.  On \<open>crc_odd_dev\<close> with size 1 the stored value
  is the checksum of the stored byte, and the load fails.  On \<open>crc_zero_dev\<close> with size 3 the stored value \<open>0x3412\<close> is not the
  checksum (which is 0), and the load succeeds.
\<close>

theorem Flash_LoadConfig_odd_size_ignores_stored_crc:
  "(0 :: 16 word) < 1 \<and> (1 :: 16 word) \<le> 62
   \<and> load16 (mem crc_odd_dev) (FLASH_CONFIG_ADDR + ucast (1 :: 16 word))
       = Flash_CalculateCRC16 [mem crc_odd_dev FLASH_CONFIG_ADDR] 1
   \<and> Flash_LoadConfig crc_odd_dev (Some [0xAA]) 1 = (False, Some [0x00])
   \<and> (0 :: 16 word) < 3 \<and> (3 :: 16 word) \<le> 62
   \<and> load16 (mem crc_zero_dev) (FLASH_CONFIG_ADDR + ucast (3 :: 16 word)) = 0x3412
   \<and> Flash_CalculateCRC16 [mem crc_zero_dev FLASH_CONFIG_ADDR,
          mem crc_zero_dev (FLASH_CONFIG_ADDR + 1), mem crc_zero_dev (FLASH_CONFIG_ADDR + 2)] 3 = 0
   \<and> Flash_LoadConfig crc_zero_dev (Some [0xAA, 0xAA, 0xAA]) 3 = (True, Some [0xFF, 0xFF, 0x00])"
proof -
  have a: "(0 :: 16 word) < 1 \<and> (1 :: 16 word) \<le> 62 \<and> (0 :: 16 word) < 3 \<and> (3 :: 16 word) \<le> 62"
    by simp
  have b: "load16 (mem crc_odd_dev) (FLASH_CONFIG_ADDR + ucast (1 :: 16 word))
       = Flash_CalculateCRC16 [mem crc_odd_dev FLASH_CONFIG_ADDR] 1"
    by code_simp
  have d: "Flash_LoadConfig crc_odd_dev (Some [0xAA]) 1 = (False, Some [0x00])"
    by code_simp
  have e: "load16 (mem crc_zero_dev) (FLASH_CONFIG_ADDR + ucast (3 :: 16 word)) = 0x3412"
    by code_simp
  have f: "Flash_CalculateCRC16 [mem crc_zero_dev FLASH_CONFIG_ADDR,
          mem crc_zero_dev (FLASH_CONFIG_ADDR + 1), mem crc_zero_dev (FLASH_CONFIG_ADDR + 2)] 3 = 0"
    by code_simp
  from a b d e f crc_zero_dev_load show ?thesis by blast
qed

subsection \<open>Where a write lands\<close>

lemma Flash_WriteWord_OK:
  assumes ok: "Flash_WriteWord v a d s = (FLASH_OK, s')"
  shows "Flash_IsAddressValid a \<and> a AND 3 = 0 \<and> load32 (mem s') a = d"
proof -
  from ok have v: "Flash_IsAddressValid a"
    by (auto simp: Flash_WriteWord_def split: if_splits)
  from ok v have al: "a AND 3 = 0"
    by (auto simp: Flash_WriteWord_def split: if_splits)
  obtain fs s2 where p: "FLASH_ProgramWord v a d (FLASH_Unlock s) = (fs, s2)"
    by (cases "FLASH_ProgramWord v a d (FLASH_Unlock s)")
  have rb: "Flash_ReadWord (Flash_LockInternal s2) a = load32 (mem s2) a"
    using v al by (simp add: Flash_ReadWord_def Flash_LockInternal_def FLASH_Lock_def)
  from ok v al p rb have r: "(if fs = FLASH_COMPLETE \<and> load32 (mem s2) a \<noteq> d
       then (FLASH_ERROR_VERIFY, Flash_LockInternal s2)
       else (Flash_ConvertStatus fs, Flash_LockInternal s2)) = (FLASH_OK, s')"
    by (simp add: Flash_WriteWord_def Flash_UnlockInternal_def Let_def)
  then have ld: "load32 (mem s2) a = d" and s': "s' = Flash_LockInternal s2"
    by (auto simp: Flash_ConvertStatus_OK split: if_splits)
  have m: "mem s' = mem s2" by (simp add: s' Flash_LockInternal_def FLASH_Lock_def)
  from v al ld m show ?thesis by simp
qed

lemma Flash_WriteHalfWord_stored:
  assumes ok: "Flash_WriteHalfWord v a d s = (FLASH_OK, s')"
  shows "Flash_IsAddressValid a \<and> a AND 1 = 0 \<and> load16 (mem s') a = d"
proof -
  from ok have v: "Flash_IsAddressValid a"
    by (auto simp: Flash_WriteHalfWord_def split: if_splits)
  from ok v have al: "a AND 1 = 0"
    by (auto simp: Flash_WriteHalfWord_def split: if_splits)
  obtain fs s2 where p: "FLASH_ProgramHalfWord v a d (FLASH_Unlock s) = (fs, s2)"
    by (cases "FLASH_ProgramHalfWord v a d (FLASH_Unlock s)")
  have rb: "Flash_ReadHalfWord (Flash_LockInternal s2) a = load16 (mem s2) a"
    using v al by (simp add: Flash_ReadHalfWord_def Flash_LockInternal_def FLASH_Lock_def)
  from ok v al p rb have r: "(if fs = FLASH_COMPLETE \<and> load16 (mem s2) a \<noteq> d
       then (FLASH_ERROR_VERIFY, Flash_LockInternal s2)
       else (Flash_ConvertStatus fs, Flash_LockInternal s2)) = (FLASH_OK, s')"
    by (simp add: Flash_WriteHalfWord_def Flash_UnlockInternal_def Let_def)
  then have ld: "load16 (mem s2) a = d" and s': "s' = Flash_LockInternal s2"
    by (auto simp: Flash_ConvertStatus_OK split: if_splits)
  have m: "mem s' = mem s2" by (simp add: s' Flash_LockInternal_def FLASH_Lock_def)
  from v al ld m show ?thesis by simp
qed

lemma Flash_WriteByte_stored:
  assumes ok: "Flash_WriteByte v a d s = (FLASH_OK, s')"
  shows "Flash_IsAddressValid a \<and> mem s' a = d"
proof -
  from ok have v: "Flash_IsAddressValid a"
    by (auto simp: Flash_WriteByte_def split: if_splits)
  show ?thesis
  proof (cases "a AND 1 = 0")
    case True
    let ?h = "push_bit 8 (ucast (Flash_ReadByte s (a + 1))) OR ucast d :: 16 word"
    from ok v True align_even [OF True]
    have w: "Flash_WriteHalfWord v a ?h s = (FLASH_OK, s')"
      by (simp add: Flash_WriteByte_def Let_def)
    from Flash_WriteHalfWord_stored [OF w] have ld: "load16 (mem s') a = ?h" by simp
    have "mem s' a = d"
      using load16_low [of "mem s'" a] by (simp only: ld halfword_even_low)
    with v show ?thesis by simp
  next
    case False
    let ?b = "a AND NOT 1"
    let ?h = "ucast (Flash_ReadByte s ?b) OR push_bit 8 (ucast d) :: 16 word"
    have a: "?b + 1 = a" by (rule align_odd [OF False])
    from ok v False have w: "Flash_WriteHalfWord v ?b ?h s = (FLASH_OK, s')"
      by (simp add: Flash_WriteByte_def Let_def)
    from Flash_WriteHalfWord_stored [OF w] have ld: "load16 (mem s') ?b = ?h" by simp
    have "mem s' (?b + 1) = d"
      using load16_high [of "mem s'" ?b] by (simp only: ld halfword_odd_high)
    with v a show ?thesis by simp
  qed
qed

text \<open>
  Claim C3, amended.  The wrapper is a persistent store addressed by flash address, with
  no wear distribution.  After a successful \<open>Flash_WriteByte\<close>, \<open>Flash_WriteHalfWord\<close> or
  \<open>Flash_WriteWord\<close> the value is in the cell(s) at the address the caller gave, and the
  matching read at that address returns it.  Every successful \<open>Flash_SaveConfig\<close> puts
  the data at \<open>FLASH_CONFIG_ADDR\<close> and the checksum directly behind it (on a device
  whose half-word programming changes only the addressed half-word), so two updates in
  a row put their data into the same cells.
\<close>

theorem flash_store_by_address:
  "(Flash_WriteByte v addr d s = (FLASH_OK, s1) \<longrightarrow>
      mem s1 addr = d \<and> Flash_ReadByte s1 addr = d)
   \<and> (Flash_WriteHalfWord v addr h s = (FLASH_OK, s2) \<longrightarrow>
      load16 (mem s2) addr = h \<and> Flash_ReadHalfWord s2 addr = h)
   \<and> (Flash_WriteWord v addr w s = (FLASH_OK, s3) \<longrightarrow>
      load32 (mem s3) addr = w \<and> Flash_ReadWord s3 addr = w)
   \<and> (program_is_local v \<and> Flash_SaveConfig v (Some p) sz s = (FLASH_OK, s4) \<longrightarrow>
      (\<forall>j<unat sz. mem s4 (FLASH_CONFIG_ADDR + of_nat j) = p ! j)
      \<and> load16 (mem s4) (FLASH_CONFIG_ADDR + ucast sz) = Flash_CalculateCRC16 p sz)
   \<and> (program_is_local v \<and> Flash_SaveConfig v (Some p) sz s = (FLASH_OK, s4)
        \<and> Flash_SaveConfig v (Some p') sz s4 = (FLASH_OK, s5) \<longrightarrow>
      (\<forall>j<unat sz. mem s4 (FLASH_CONFIG_ADDR + of_nat j) = p ! j
                   \<and> mem s5 (FLASH_CONFIG_ADDR + of_nat j) = p' ! j))"
proof (intro conjI impI)
  assume a: "Flash_WriteByte v addr d s = (FLASH_OK, s1)"
  from Flash_WriteByte_stored [OF a] show "mem s1 addr = d" by simp
  from Flash_WriteByte_stored [OF a] show "Flash_ReadByte s1 addr = d"
    by (simp add: Flash_ReadByte_def)
next
  assume a: "Flash_WriteHalfWord v addr h s = (FLASH_OK, s2)"
  from Flash_WriteHalfWord_stored [OF a] show "load16 (mem s2) addr = h" by simp
  from Flash_WriteHalfWord_stored [OF a] show "Flash_ReadHalfWord s2 addr = h"
    by (simp add: Flash_ReadHalfWord_def)
next
  assume a: "Flash_WriteWord v addr w s = (FLASH_OK, s3)"
  from Flash_WriteWord_OK [OF a] show "load32 (mem s3) addr = w" by simp
  from Flash_WriteWord_OK [OF a] show "Flash_ReadWord s3 addr = w"
    by (simp add: Flash_ReadWord_def)
next
  assume a: "program_is_local v \<and> Flash_SaveConfig v (Some p) sz s = (FLASH_OK, s4)"
  then have l: "program_is_local v" and o: "Flash_SaveConfig v (Some p) sz s = (FLASH_OK, s4)"
    by simp_all
  from Flash_SaveConfig_OK [OF l o]
  show "\<forall>j<unat sz. mem s4 (FLASH_CONFIG_ADDR + of_nat j) = p ! j" by blast
  from Flash_SaveConfig_OK [OF l o]
  show "load16 (mem s4) (FLASH_CONFIG_ADDR + ucast sz) = Flash_CalculateCRC16 p sz" by blast
next
  assume a: "program_is_local v \<and> Flash_SaveConfig v (Some p) sz s = (FLASH_OK, s4)
        \<and> Flash_SaveConfig v (Some p') sz s4 = (FLASH_OK, s5)"
  then have l: "program_is_local v" and o: "Flash_SaveConfig v (Some p) sz s = (FLASH_OK, s4)"
    and o': "Flash_SaveConfig v (Some p') sz s4 = (FLASH_OK, s5)"
    by simp_all
  from Flash_SaveConfig_OK [OF l o] Flash_SaveConfig_OK [OF l o']
  show "\<forall>j<unat sz. mem s4 (FLASH_CONFIG_ADDR + of_nat j) = p ! j
                   \<and> mem s5 (FLASH_CONFIG_ADDR + of_nat j) = p' ! j" by blast
qed

lemma update_once_ok: "update_once = (FLASH_OK, snd update_once)"
proof -
  have "fst update_once = FLASH_OK" by code_simp
  then show ?thesis by (simp add: prod_eq_iff)
qed

lemma update_twice_ok: "update_twice = (FLASH_OK, snd update_twice)"
proof -
  have "fst update_twice = FLASH_OK" by code_simp
  then show ?thesis by (simp add: prod_eq_iff)
qed

theorem flash_store_by_address_witness:
  "fst (Flash_WriteByte sim_flash 0x08003FC1 0x56 erased_dev) = FLASH_OK
   \<and> Flash_ReadByte (snd (Flash_WriteByte sim_flash 0x08003FC1 0x56 erased_dev)) 0x08003FC1 = 0x56
   \<and> fst (Flash_WriteHalfWord sim_flash 0x08003FC0 0x1234 erased_dev) = FLASH_OK
   \<and> Flash_ReadHalfWord (snd (Flash_WriteHalfWord sim_flash 0x08003FC0 0x1234 erased_dev)) 0x08003FC0 = 0x1234
   \<and> fst (Flash_WriteWord sim_flash 0x08003FC4 0x89ABCDEF erased_dev) = FLASH_OK
   \<and> Flash_ReadWord (snd (Flash_WriteWord sim_flash 0x08003FC4 0x89ABCDEF erased_dev)) 0x08003FC4 = 0x89ABCDEF
   \<and> program_is_local sim_flash
   \<and> fst update_once = FLASH_OK \<and> fst update_twice = FLASH_OK
   \<and> mem (snd update_once) (FLASH_CONFIG_ADDR + of_nat 1) = 0x22
   \<and> mem (snd update_twice) (FLASH_CONFIG_ADDR + of_nat 1) = 0x44"
proof -
  let ?b = "Flash_WriteByte sim_flash 0x08003FC1 0x56 erased_dev"
  let ?h = "Flash_WriteHalfWord sim_flash 0x08003FC0 0x1234 erased_dev"
  let ?w = "Flash_WriteWord sim_flash 0x08003FC4 0x89ABCDEF erased_dev"
  have ok1: "fst ?b = FLASH_OK" by code_simp
  have ok2: "fst ?h = FLASH_OK" by code_simp
  have ok3: "fst ?w = FLASH_OK" by code_simp
  have b: "?b = (FLASH_OK, snd ?b)" using ok1 by (simp add: prod_eq_iff)
  have h: "?h = (FLASH_OK, snd ?h)" using ok2 by (simp add: prod_eq_iff)
  have w: "?w = (FLASH_OK, snd ?w)" using ok3 by (simp add: prod_eq_iff)
  have u1: "Flash_SaveConfig sim_flash (Some [0x11, 0x22]) 2 erased_dev = (FLASH_OK, snd update_once)"
    using update_once_ok by (simp add: update_once_def)
  have u2: "Flash_SaveConfig sim_flash (Some [0x33, 0x44]) 2 (snd update_once)
              = (FLASH_OK, snd update_twice)"
    using update_twice_ok by (simp add: update_twice_def)
  note t = flash_store_by_address
  from t [of sim_flash "0x08003FC1" "0x56" erased_dev "snd ?b"] b
  have r1: "Flash_ReadByte (snd ?b) 0x08003FC1 = 0x56" by blast
  from t [of sim_flash "0x08003FC0" _ erased_dev _ "0x1234" "snd ?h"] h
  have r2: "Flash_ReadHalfWord (snd ?h) 0x08003FC0 = 0x1234" by blast
  from t [of sim_flash "0x08003FC4" _ erased_dev _ _ _ "0x89ABCDEF" "snd ?w"] w
  have r3: "Flash_ReadWord (snd ?w) 0x08003FC4 = 0x89ABCDEF" by blast
  have one: "(1 :: nat) < unat (2 :: 16 word)" by simp
  from t [of sim_flash _ _ erased_dev _ _ _ _ _ "[0x11, 0x22]" 2 "snd update_once"
            "[0x33, 0x44]" "snd update_twice"] sim_flash_local u1 u2
  have "\<forall>j<unat (2 :: 16 word). mem (snd update_once) (FLASH_CONFIG_ADDR + of_nat j) = [0x11, 0x22] ! j
                   \<and> mem (snd update_twice) (FLASH_CONFIG_ADDR + of_nat j) = [0x33, 0x44] ! j"
    by blast
  with one have "mem (snd update_once) (FLASH_CONFIG_ADDR + of_nat 1) = [0x11, 0x22] ! 1
                   \<and> mem (snd update_twice) (FLASH_CONFIG_ADDR + of_nat 1) = [0x33, 0x44] ! 1"
    by blast
  then have r4: "mem (snd update_once) (FLASH_CONFIG_ADDR + of_nat 1) = 0x22"
    and r5: "mem (snd update_twice) (FLASH_CONFIG_ADDR + of_nat 1) = 0x44"
    by simp_all
  have o1: "fst update_once = FLASH_OK" using update_once_ok by (metis fst_conv)
  have o2: "fst update_twice = FLASH_OK" using update_twice_ok by (metis fst_conv)
  from ok1 ok2 ok3 r1 r2 r3 r4 r5 o1 o2 sim_flash_local show ?thesis by blast
qed

text \<open>
  Counterexample to claim C3 as stated.  Two configuration updates in a row on the
  simulated device: both succeed, and the second one rewrites the same four cells that
  the first one wrote (two data bytes and the CRC), so repeated updates are not spread
  over different cells.
\<close>

theorem repeated_update_same_cells_counterexample:
  "fst update_once = FLASH_OK \<and> fst update_twice = FLASH_OK
   \<and> map (mem (snd update_once)) [0x08003F80, 0x08003F81, 0x08003F82, 0x08003F83]
        = [0x11, 0x22, 0x6D, 0x29]
   \<and> map (mem (snd update_twice)) [0x08003F80, 0x08003F81, 0x08003F82, 0x08003F83]
        = [0x33, 0x44, 0x89, 0x45]"
  by code_simp

section \<open>SimpleDMA: verification\<close>

subsection \<open>Flags and recorded status\<close>

lemma and_tc_mask: "(x :: 32 word) AND push_bit k 2 \<noteq> 0 \<longleftrightarrow> bit x (k + 1)"
proof -
  have "push_bit k (2 :: 32 word) = push_bit (k + 1) 1"
    by (simp add: push_bit_eq_mult)
  then show ?thesis by (simp add: bit_iff_and_push_bit_not_eq_0)
qed

lemma and_te_mask: "(x :: 32 word) AND push_bit k 8 \<noteq> 0 \<longleftrightarrow> bit x (k + 3)"
proof -
  have "push_bit k (8 :: 32 word) = push_bit (k + 3) 1"
    by (simp add: push_bit_eq_mult power_add)
  then show ?thesis by (simp add: bit_iff_and_push_bit_not_eq_0)
qed

lemma GetFlagStatus_TC:
  "DMA_GetFlagStatus s (push_bit (k * 4) DMA1_FLAG_TC1) \<longleftrightarrow> bit (INTFR s) (k * 4 + 1)"
  by (simp add: DMA_GetFlagStatus_def DMA1_FLAG_TC1_def and_tc_mask)

lemma GetFlagStatus_TE:
  "DMA_GetFlagStatus s (push_bit (k * 4) DMA1_FLAG_TE1) \<longleftrightarrow> bit (INTFR s) (k * 4 + 3)"
  by (simp add: DMA_GetFlagStatus_def DMA1_FLAG_TE1_def and_te_mask)

lemma set_status_simps [simp]:
  "INTFR (set_status i st s) = INTFR s"
  "CFGR (set_status i st s) = CFGR s"
  "cb_trace (set_status i st s) = cb_trace s"
  "transfer_complete_callbacks (set_status i st s) = transfer_complete_callbacks s"
  "error_callbacks (set_status i st s) = error_callbacks s"
  "nvic_enabled (set_status i st s) = nvic_enabled s"
  "channel_status (set_status i st s) = (channel_status s)[i := st]"
  by (simp_all add: set_status_def)

lemma flag_set_status [simp]:
  "tc_flag n (set_status i st s) = tc_flag n s" "te_flag n (set_status i st s) = te_flag n s"
  by (simp_all add: tc_flag_def te_flag_def)

lemma DMA_GetStatus_eq:
  "DMA_GetStatus channel s =
     (let s2 = (if te_flag channel s then set_status (channel - 1) DMA_STATUS_ERROR
                  (if tc_flag channel s then set_status (channel - 1) DMA_STATUS_COMPLETE s else s)
                else if tc_flag channel s then set_status (channel - 1) DMA_STATUS_COMPLETE s
                else s)
      in (channel_status s2 ! (channel - 1), s2))"
  by (simp add: DMA_GetStatus_def Let_def GetFlagStatus_TC GetFlagStatus_TE tc_flag_def te_flag_def)

lemma channel_cases:
  assumes "1 \<le> n" and "n \<le> (7 :: nat)"
  shows "n \<in> {1, 2, 3, 4, 5, 6, 7}"
  using assms by auto

lemma DMA_Start_flags:
  assumes "1 \<le> n" and "n \<le> 7"
  shows "\<not> tc_flag n (DMA_Start n s) \<and> \<not> te_flag n (DMA_Start n s)
    \<and> channel_status (DMA_Start n s) = (channel_status s)[n - 1 := DMA_STATUS_BUSY]"
  using channel_cases [OF assms]
  by (elim insertE emptyE)
    (simp_all add: DMA_Start_def Let_def DMA_Cmd_def DMA_ClearFlag_def flag_clear_mask_def
      DMA1_FLAG_TC1_def DMA1_FLAG_TE1_def tc_flag_def te_flag_def bit_simps)

lemma DMA_Stop_status:
  "channel_status (DMA_Stop n s) = (channel_status s)[n - 1 := DMA_STATUS_IDLE]"
  by (simp add: DMA_Stop_def Let_def DMA_Cmd_def set_status_def)

lemma DMA_Reset_status:
  "channel_status (DMA_Reset n s) = (channel_status s)[n - 1 := DMA_STATUS_IDLE]"
  by (simp add: DMA_Reset_def Let_def DMA_Cmd_def DMA_ClearFlag_def set_status_def)

lemma DMA_Status_universe:
  "(st :: DMA_Status) \<in> {DMA_STATUS_IDLE, DMA_STATUS_BUSY, DMA_STATUS_COMPLETE, DMA_STATUS_ERROR}"
  by (cases st) simp_all

text \<open>
  Claim C4.  For every channel in 1..7, \<open>DMA_GetStatus\<close> returns \<open>DMA_STATUS_ERROR\<close>
  when the channel's transfer-error flag is set, \<open>DMA_STATUS_COMPLETE\<close> when only its
  transfer-complete flag is set, and the last recorded status otherwise, and it records
  what it returns; \<open>DMA_Start\<close> leaves both flags of the channel cleared and records
  \<open>BUSY\<close>; \<open>DMA_Stop\<close> and \<open>DMA_Reset\<close> record \<open>IDLE\<close>.  Every recorded status stays
  one of the four values of the enum.
\<close>

theorem DMA_status_tracking:
  assumes "1 \<le> channel" and "channel \<le> 7" and "length (channel_status s) = 7"
  shows "fst (DMA_GetStatus channel s) =
           (if te_flag channel s then DMA_STATUS_ERROR
            else if tc_flag channel s then DMA_STATUS_COMPLETE
            else channel_status s ! (channel - 1))
    \<and> channel_status (snd (DMA_GetStatus channel s)) =
           (if te_flag channel s \<or> tc_flag channel s
            then (channel_status s)[channel - 1 := fst (DMA_GetStatus channel s)]
            else channel_status s)
    \<and> \<not> tc_flag channel (DMA_Start channel s) \<and> \<not> te_flag channel (DMA_Start channel s)
    \<and> channel_status (DMA_Start channel s) = (channel_status s)[channel - 1 := DMA_STATUS_BUSY]
    \<and> channel_status (DMA_Stop channel s) = (channel_status s)[channel - 1 := DMA_STATUS_IDLE]
    \<and> channel_status (DMA_Reset channel s) = (channel_status s)[channel - 1 := DMA_STATUS_IDLE]
    \<and> channel_status (DMA_Start channel s) ! (channel - 1) = DMA_STATUS_BUSY
    \<and> channel_status (DMA_Stop channel s) ! (channel - 1) = DMA_STATUS_IDLE
    \<and> channel_status (DMA_Reset channel s) ! (channel - 1) = DMA_STATUS_IDLE
    \<and> set (channel_status (snd (DMA_GetStatus channel s)))
         \<union> set (channel_status (DMA_Start channel s))
         \<union> set (channel_status (DMA_Stop channel s))
         \<union> set (channel_status (DMA_Reset channel s))
       \<subseteq> {DMA_STATUS_IDLE, DMA_STATUS_BUSY, DMA_STATUS_COMPLETE, DMA_STATUS_ERROR}"
proof -
  from assms have i: "channel - 1 < length (channel_status s)" by simp
  have g1: "fst (DMA_GetStatus channel s) =
           (if te_flag channel s then DMA_STATUS_ERROR
            else if tc_flag channel s then DMA_STATUS_COMPLETE
            else channel_status s ! (channel - 1))"
    using i by (simp add: DMA_GetStatus_eq Let_def)
  have g2: "channel_status (snd (DMA_GetStatus channel s)) =
           (if te_flag channel s \<or> tc_flag channel s
            then (channel_status s)[channel - 1 := fst (DMA_GetStatus channel s)]
            else channel_status s)"
    using i by (simp add: DMA_GetStatus_eq Let_def)
  note st = DMA_Start_flags [OF assms(1,2), of s]
  have u: "set (channel_status (snd (DMA_GetStatus channel s)))
         \<union> set (channel_status (DMA_Start channel s))
         \<union> set (channel_status (DMA_Stop channel s))
         \<union> set (channel_status (DMA_Reset channel s))
       \<subseteq> {DMA_STATUS_IDLE, DMA_STATUS_BUSY, DMA_STATUS_COMPLETE, DMA_STATUS_ERROR}"
    using DMA_Status_universe by blast
  from g1 g2 st u i show ?thesis
    by (simp only: DMA_Stop_status DMA_Reset_status nth_list_update_eq simp_thms)
qed


theorem DMA_status_tracking_witness:
  "(1 :: nat) \<le> 3 \<and> (3 :: nat) \<le> 7 \<and> length (channel_status (dma_reset_state\<lparr>INTFR := 0xA00\<rparr>)) = 7
   \<and> fst (DMA_GetStatus 3 (dma_reset_state\<lparr>INTFR := 0xA00\<rparr>)) = DMA_STATUS_ERROR
   \<and> fst (DMA_GetStatus 3 (dma_reset_state\<lparr>INTFR := 0x200\<rparr>)) = DMA_STATUS_COMPLETE
   \<and> fst (DMA_GetStatus 3 (DMA_Start 3 (dma_reset_state\<lparr>INTFR := 0xA00\<rparr>))) = DMA_STATUS_BUSY
   \<and> fst (DMA_GetStatus 3 (DMA_Stop 3 (DMA_Start 3 (dma_reset_state\<lparr>INTFR := 0xA00\<rparr>)))) = DMA_STATUS_IDLE"
proof -
  let ?s = "dma_reset_state\<lparr>INTFR := 0xA00\<rparr>"
  let ?t = "dma_reset_state\<lparr>INTFR := 0x200\<rparr>"
  have l: "length (channel_status ?s) = 7" "length (channel_status ?t) = 7"
    by (simp_all add: dma_reset_state_def)
  have f: "te_flag 3 ?s" "tc_flag 3 ?t" "\<not> te_flag 3 ?t"
    by (simp_all add: te_flag_def tc_flag_def)
  have c: "(1 :: nat) \<le> 3" "(3 :: nat) \<le> 7" by simp_all
  from DMA_status_tracking [OF c l(1)] f have e1: "fst (DMA_GetStatus 3 ?s) = DMA_STATUS_ERROR"
    by simp
  from DMA_status_tracking [OF c l(2)] f have e2: "fst (DMA_GetStatus 3 ?t) = DMA_STATUS_COMPLETE"
    by simp
  note a = DMA_status_tracking [OF c l(1)]
  have l3: "length (channel_status (DMA_Start 3 ?s)) = 7"
    using a l by simp
  from a have nf: "\<not> tc_flag 3 (DMA_Start 3 ?s)" "\<not> te_flag 3 (DMA_Start 3 ?s)"
    and b: "channel_status (DMA_Start 3 ?s) ! (3 - 1) = DMA_STATUS_BUSY" by blast+
  from DMA_status_tracking [OF c l3] nf b
  have e3: "fst (DMA_GetStatus 3 (DMA_Start 3 ?s)) = DMA_STATUS_BUSY" by simp
  have e4: "fst (DMA_GetStatus 3 (DMA_Stop 3 (DMA_Start 3 ?s))) = DMA_STATUS_IDLE"
    by (simp add: DMA_GetStatus_eq DMA_Stop_def DMA_Start_def Let_def DMA_Cmd_def DMA_ClearFlag_def
        flag_clear_mask_def DMA1_FLAG_TC1_def DMA1_FLAG_TE1_def tc_flag_def te_flag_def
        set_status_def dma_reset_state_def get_channel_base_def)
  from c l e1 e2 e3 e4 show ?thesis by simp
qed

lemma it_mask_bits:
  "((x :: 32 word) AND 0x2 = 0) = (\<not> bit x 1)" "(x AND 0x8 = 0) = (\<not> bit x 3)"
  "(x AND 0x20 = 0) = (\<not> bit x 5)" "(x AND 0x80 = 0) = (\<not> bit x 7)"
  "(x AND 0x200 = 0) = (\<not> bit x 9)" "(x AND 0x800 = 0) = (\<not> bit x 11)"
  "(x AND 0x2000 = 0) = (\<not> bit x 13)" "(x AND 0x8000 = 0) = (\<not> bit x 15)"
  "(x AND 0x20000 = 0) = (\<not> bit x 17)" "(x AND 0x80000 = 0) = (\<not> bit x 19)"
  "(x AND 0x200000 = 0) = (\<not> bit x 21)" "(x AND 0x800000 = 0) = (\<not> bit x 23)"
  "(x AND 0x2000000 = 0) = (\<not> bit x 25)" "(x AND 0x8000000 = 0) = (\<not> bit x 27)"
  by (simp_all add: bit_iff_and_push_bit_not_eq_0)

lemmas irq_defs =
  DMA1_Channel_IRQHandler_def DMA1_Channel1_IRQHandler_def DMA1_Channel2_IRQHandler_def
  DMA1_Channel3_IRQHandler_def DMA1_Channel4_IRQHandler_def DMA1_Channel5_IRQHandler_def
  DMA1_Channel6_IRQHandler_def DMA1_Channel7_IRQHandler_def
  DMA1_IT_TC1_def DMA1_IT_TE1_def DMA1_IT_TC2_def DMA1_IT_TE2_def DMA1_IT_TC3_def DMA1_IT_TE3_def
  DMA1_IT_TC4_def DMA1_IT_TE4_def DMA1_IT_TC5_def DMA1_IT_TE5_def DMA1_IT_TC6_def DMA1_IT_TE6_def
  DMA1_IT_TC7_def DMA1_IT_TE7_def
  irq_handler_def DMA_GetITStatus_def DMA_ClearITPendingBit_def flag_clear_mask_def invoke_def
  set_status_def tc_flag_def te_flag_def Let_def

lemma irq_handler_channel:
  assumes "n \<in> {1, 2, 3, 4, 5, 6, 7}"
  shows "DMA1_Channel_IRQHandler n s =
    s\<lparr>channel_status :=
         (if te_flag n s then (channel_status s)[n - 1 := DMA_STATUS_ERROR]
          else if tc_flag n s then (channel_status s)[n - 1 := DMA_STATUS_COMPLETE]
          else channel_status s),
       cb_trace := cb_trace s
         @ (if tc_flag n s
            then (case transfer_complete_callbacks s ! (n - 1) of None \<Rightarrow> [] | Some f \<Rightarrow> [(f, n)])
            else [])
         @ (if te_flag n s
            then (case error_callbacks s ! (n - 1) of None \<Rightarrow> [] | Some f \<Rightarrow> [(f, n)])
            else []),
       INTFR := (INTFR s AND NOT (if tc_flag n s then push_bit ((n - 1) * 4 + 1) 1 else 0))
                  AND NOT (if te_flag n s then push_bit ((n - 1) * 4 + 3) 1 else 0)\<rparr>"
  using assms
  by (elim insertE emptyE) (simp_all add: irq_defs it_mask_bits bit_simps split: option.splits)


text \<open>
  Claim C5.  For every channel \<open>n\<close> in 1..7, one run of the channel's interrupt handler
  clears the pending transfer-complete and transfer-error bits of that channel and no
  other bit; records \<open>COMPLETE\<close> when transfer-complete was pending and \<open>ERROR\<close> when
  transfer-error was pending (the error block runs last, so it wins when both were
  pending); calls the registered transfer-complete callback exactly once when that
  interrupt was pending and one is registered, and likewise the error callback, each
  with the channel as argument; and changes nothing else: no other status entry, no
  callback table, no configuration, counter or address register, no interrupt enable,
  no clock gate, no memory cell.  The entry the
  handler reads is the one \<open>DMA_SetTransferCompleteCallback\<close> and
  \<open>DMA_SetErrorCallback\<close> write.
\<close>

theorem IRQHandler_fire_and_forget:
  assumes "1 \<le> n" and "n \<le> 7"
    and "length (channel_status s) = 7"
    and "length (transfer_complete_callbacks s) = 7" and "length (error_callbacks s) = 7"
  shows "\<not> tc_flag n (DMA1_Channel_IRQHandler n s) \<and> \<not> te_flag n (DMA1_Channel_IRQHandler n s)
    \<and> INTFR (DMA1_Channel_IRQHandler n s) =
         (INTFR s AND NOT (if tc_flag n s then push_bit ((n - 1) * 4 + 1) 1 else 0))
           AND NOT (if te_flag n s then push_bit ((n - 1) * 4 + 3) 1 else 0)
    \<and> channel_status (DMA1_Channel_IRQHandler n s) =
         (if te_flag n s then (channel_status s)[n - 1 := DMA_STATUS_ERROR]
          else if tc_flag n s then (channel_status s)[n - 1 := DMA_STATUS_COMPLETE]
          else channel_status s)
    \<and> channel_status (DMA1_Channel_IRQHandler n s) ! (n - 1) =
         (if te_flag n s then DMA_STATUS_ERROR
          else if tc_flag n s then DMA_STATUS_COMPLETE
          else channel_status s ! (n - 1))
    \<and> cb_trace (DMA1_Channel_IRQHandler n s) =
         cb_trace s
         @ (if tc_flag n s
            then (case transfer_complete_callbacks s ! (n - 1) of None \<Rightarrow> [] | Some f \<Rightarrow> [(f, n)])
            else [])
         @ (if te_flag n s
            then (case error_callbacks s ! (n - 1) of None \<Rightarrow> [] | Some f \<Rightarrow> [(f, n)])
            else [])
    \<and> transfer_complete_callbacks (DMA1_Channel_IRQHandler n s) = transfer_complete_callbacks s
    \<and> error_callbacks (DMA1_Channel_IRQHandler n s) = error_callbacks s
    \<and> CFGR (DMA1_Channel_IRQHandler n s) = CFGR s
    \<and> CNTR (DMA1_Channel_IRQHandler n s) = CNTR s
    \<and> PADDR (DMA1_Channel_IRQHandler n s) = PADDR s
    \<and> MADDR (DMA1_Channel_IRQHandler n s) = MADDR s
    \<and> nvic_enabled (DMA1_Channel_IRQHandler n s) = nvic_enabled s
    \<and> rcc_dma1_clock (DMA1_Channel_IRQHandler n s) = rcc_dma1_clock s
    \<and> ram (DMA1_Channel_IRQHandler n s) = ram s
    \<and> transfer_complete_callbacks (DMA_SetTransferCompleteCallback n cb s) ! (n - 1) = cb
    \<and> error_callbacks (DMA_SetErrorCallback n cb s) ! (n - 1) = cb"
proof -
  note c = channel_cases [OF assms(1,2)]
  note h = irq_handler_channel [OF c, of s]
  have k: "(n - 1) * 4 + 1 < 32" "(n - 1) * 4 + 3 < 32" using assms(2) by simp_all
  have f1: "\<not> tc_flag n (DMA1_Channel_IRQHandler n s)"
    unfolding h using k by (simp add: tc_flag_def bit_simps)
  have f2: "\<not> te_flag n (DMA1_Channel_IRQHandler n s)"
    unfolding h using k by (simp add: te_flag_def bit_simps)
  have i: "n - 1 < 7" using assms(1,2) by simp
  have st: "channel_status (DMA1_Channel_IRQHandler n s) ! (n - 1) =
         (if te_flag n s then DMA_STATUS_ERROR
          else if tc_flag n s then DMA_STATUS_COMPLETE
          else channel_status s ! (n - 1))"
    unfolding h using i assms(3) by simp
  have r1: "transfer_complete_callbacks (DMA_SetTransferCompleteCallback n cb s) ! (n - 1) = cb"
    using i assms(4)
    by (simp add: DMA_SetTransferCompleteCallback_def Let_def NVIC_EnableIRQ_def DMA_ITConfig_def)
  have r2: "error_callbacks (DMA_SetErrorCallback n cb s) ! (n - 1) = cb"
    using i assms(5)
    by (simp add: DMA_SetErrorCallback_def Let_def NVIC_EnableIRQ_def DMA_ITConfig_def)
  have rest: "INTFR (DMA1_Channel_IRQHandler n s) =
         (INTFR s AND NOT (if tc_flag n s then push_bit ((n - 1) * 4 + 1) 1 else 0))
           AND NOT (if te_flag n s then push_bit ((n - 1) * 4 + 3) 1 else 0)
    \<and> channel_status (DMA1_Channel_IRQHandler n s) =
         (if te_flag n s then (channel_status s)[n - 1 := DMA_STATUS_ERROR]
          else if tc_flag n s then (channel_status s)[n - 1 := DMA_STATUS_COMPLETE]
          else channel_status s)
    \<and> cb_trace (DMA1_Channel_IRQHandler n s) =
         cb_trace s
         @ (if tc_flag n s
            then (case transfer_complete_callbacks s ! (n - 1) of None \<Rightarrow> [] | Some f \<Rightarrow> [(f, n)])
            else [])
         @ (if te_flag n s
            then (case error_callbacks s ! (n - 1) of None \<Rightarrow> [] | Some f \<Rightarrow> [(f, n)])
            else [])
    \<and> transfer_complete_callbacks (DMA1_Channel_IRQHandler n s) = transfer_complete_callbacks s
    \<and> error_callbacks (DMA1_Channel_IRQHandler n s) = error_callbacks s
    \<and> CFGR (DMA1_Channel_IRQHandler n s) = CFGR s
    \<and> CNTR (DMA1_Channel_IRQHandler n s) = CNTR s
    \<and> PADDR (DMA1_Channel_IRQHandler n s) = PADDR s
    \<and> MADDR (DMA1_Channel_IRQHandler n s) = MADDR s
    \<and> nvic_enabled (DMA1_Channel_IRQHandler n s) = nvic_enabled s
    \<and> rcc_dma1_clock (DMA1_Channel_IRQHandler n s) = rcc_dma1_clock s
    \<and> ram (DMA1_Channel_IRQHandler n s) = ram s"
    unfolding h by simp
  from f1 f2 st r1 r2 rest show ?thesis by blast
qed

theorem IRQHandler_fire_and_forget_witness:
  "(1 :: nat) \<le> 2 \<and> (2 :: nat) \<le> 7
   \<and> DMA1_Channel_IRQHandler 2
        (DMA_SetTransferCompleteCallback 2 (Some 42) (dma_reset_state\<lparr>INTFR := 0x20\<rparr>))
      = (DMA_SetTransferCompleteCallback 2 (Some 42) (dma_reset_state\<lparr>INTFR := 0x20\<rparr>))
          \<lparr>channel_status := [DMA_STATUS_IDLE, DMA_STATUS_COMPLETE, DMA_STATUS_IDLE, DMA_STATUS_IDLE,
                              DMA_STATUS_IDLE, DMA_STATUS_IDLE, DMA_STATUS_IDLE],
           cb_trace := [(42, 2)], INTFR := 0\<rparr>
   \<and> cb_trace (DMA1_Channel_IRQHandler 2 (dma_reset_state\<lparr>INTFR := 0xA0\<rparr>)) = []
   \<and> channel_status (DMA1_Channel_IRQHandler 2 (dma_reset_state\<lparr>INTFR := 0xA0\<rparr>)) ! 1 = DMA_STATUS_ERROR"
proof -
  let ?s = "DMA_SetTransferCompleteCallback 2 (Some 42) (dma_reset_state\<lparr>INTFR := 0x20\<rparr>)"
  let ?t = "dma_reset_state\<lparr>INTFR := 0xA0\<rparr>"
  have c: "(1 :: nat) \<le> 2" "(2 :: nat) \<le> 7" by simp_all
  have ls: "length (channel_status ?s) = 7" "length (transfer_complete_callbacks ?s) = 7"
    "length (error_callbacks ?s) = 7"
    by (simp_all add: DMA_SetTransferCompleteCallback_def Let_def NVIC_EnableIRQ_def
        DMA_ITConfig_def dma_reset_state_def)
  have lt: "length (channel_status ?t) = 7" "length (transfer_complete_callbacks ?t) = 7"
    "length (error_callbacks ?t) = 7"
    by (simp_all add: dma_reset_state_def)
  have fs: "tc_flag 2 ?s" "\<not> te_flag 2 ?s"
    by (simp_all add: tc_flag_def te_flag_def DMA_SetTransferCompleteCallback_def Let_def
        NVIC_EnableIRQ_def DMA_ITConfig_def)
  have ft: "tc_flag 2 ?t" "te_flag 2 ?t"
    by (simp_all add: tc_flag_def te_flag_def)
  have vs: "transfer_complete_callbacks ?s ! (2 - 1) = Some 42" "cb_trace ?s = []" "INTFR ?s = 0x20"
    "channel_status ?s = replicate 7 DMA_STATUS_IDLE"
    by (simp_all add: DMA_SetTransferCompleteCallback_def Let_def NVIC_EnableIRQ_def
        DMA_ITConfig_def dma_reset_state_def)
  have vt: "transfer_complete_callbacks ?t ! (2 - 1) = None" "error_callbacks ?t ! (2 - 1) = None"
    "cb_trace ?t = []"
    by (simp_all add: dma_reset_state_def numeral_eq_Suc)
  note a = IRQHandler_fire_and_forget [OF c ls, of None]
  note b = IRQHandler_fire_and_forget [OF c lt, of None]
  have e1: "DMA1_Channel_IRQHandler 2 ?s
      = ?s\<lparr>channel_status := [DMA_STATUS_IDLE, DMA_STATUS_COMPLETE, DMA_STATUS_IDLE, DMA_STATUS_IDLE,
                              DMA_STATUS_IDLE, DMA_STATUS_IDLE, DMA_STATUS_IDLE],
           cb_trace := [(42, 2)], INTFR := 0\<rparr>"
    using a fs vs by (intro dma_state.equality) (simp_all add: numeral_eq_Suc)
  from b ft vt have e2: "cb_trace (DMA1_Channel_IRQHandler 2 ?t) = []" by simp
  from b have "channel_status (DMA1_Channel_IRQHandler 2 ?t) ! (2 - 1) =
         (if te_flag 2 ?t then DMA_STATUS_ERROR
          else if tc_flag 2 ?t then DMA_STATUS_COMPLETE
          else channel_status ?t ! (2 - 1))" by blast
  with ft have e3: "channel_status (DMA1_Channel_IRQHandler 2 ?t) ! 1 = DMA_STATUS_ERROR" by simp
  from c e1 e2 e3 show ?thesis by blast
qed

subsection \<open>Blocking wait\<close>

lemma DMA_WaitComplete_step:
  "DMA_WaitComplete env channel timeout_ms s =
     (if fst (DMA_GetStatus channel s) = DMA_STATUS_COMPLETE
      then Some (1, snd (DMA_GetStatus channel s))
      else if fst (DMA_GetStatus channel s) = DMA_STATUS_ERROR
      then Some (0, snd (DMA_GetStatus channel s))
      else DMA_WaitComplete env channel timeout_ms (env (snd (DMA_GetStatus channel s))))"
  by (subst DMA_WaitComplete.simps) (simp add: Let_def)

lemma poll_state_shift:
  "poll_state env channel s (Suc k)
     = poll_state env channel (env (snd (DMA_GetStatus channel s))) k"
  by (induction k) simp_all

lemma DMA_WaitComplete_first_terminal:
  assumes "\<forall>j<k. fst (DMA_GetStatus channel (poll_state env channel s j))
                    \<notin> {DMA_STATUS_COMPLETE, DMA_STATUS_ERROR}"
    and "fst (DMA_GetStatus channel (poll_state env channel s k))
           \<in> {DMA_STATUS_COMPLETE, DMA_STATUS_ERROR}"
  shows "DMA_WaitComplete env channel timeout_ms s =
    Some (if fst (DMA_GetStatus channel (poll_state env channel s k)) = DMA_STATUS_COMPLETE
          then 1 else 0,
          snd (DMA_GetStatus channel (poll_state env channel s k)))"
  using assms
proof (induction k arbitrary: s)
  case 0
  then show ?case by (subst DMA_WaitComplete_step) auto
next
  case (Suc k)
  let ?s1 = "env (snd (DMA_GetStatus channel s))"
  from Suc.prems(1) have n0: "fst (DMA_GetStatus channel s)
      \<notin> {DMA_STATUS_COMPLETE, DMA_STATUS_ERROR}"
    by (metis poll_state.simps(1) zero_less_Suc)
  have a: "\<forall>j<k. fst (DMA_GetStatus channel (poll_state env channel ?s1 j))
                    \<notin> {DMA_STATUS_COMPLETE, DMA_STATUS_ERROR}"
  proof (intro allI impI)
    fix j assume "j < k"
    then have "Suc j < Suc k" by simp
    with Suc.prems(1) show "fst (DMA_GetStatus channel (poll_state env channel ?s1 j))
                    \<notin> {DMA_STATUS_COMPLETE, DMA_STATUS_ERROR}"
      unfolding poll_state_shift [symmetric] by blast
  qed
  have b: "fst (DMA_GetStatus channel (poll_state env channel ?s1 k))
           \<in> {DMA_STATUS_COMPLETE, DMA_STATUS_ERROR}"
    using Suc.prems(2) unfolding poll_state_shift .
  have "DMA_WaitComplete env channel timeout_ms s = DMA_WaitComplete env channel timeout_ms ?s1"
    using n0 by (subst DMA_WaitComplete_step) auto
  also note Suc.IH [OF a b]
  finally show ?case unfolding poll_state_shift .
qed

lemma DMA_WaitComplete_Some_terminal:
  assumes "DMA_WaitComplete env channel timeout_ms s = Some y"
  shows "\<exists>k. fst (DMA_GetStatus channel (poll_state env channel s k))
               \<in> {DMA_STATUS_COMPLETE, DMA_STATUS_ERROR}"
proof (rule DMA_WaitComplete.raw_induct
    [where P = "\<lambda>env channel timeout_ms s y.
        \<exists>k. fst (DMA_GetStatus channel (poll_state env channel s k))
               \<in> {DMA_STATUS_COMPLETE, DMA_STATUS_ERROR}", OF _ assms])
  fix W :: "(dma_state \<Rightarrow> dma_state) \<Rightarrow> nat \<Rightarrow> 32 word \<Rightarrow> dma_state \<Rightarrow> (8 word \<times> dma_state) option"
    and env channel timeout_ms s y
  assume IH: "\<And>env channel timeout_ms s y. W env channel timeout_ms s = Some y \<Longrightarrow>
      \<exists>k. fst (DMA_GetStatus channel (poll_state env channel s k))
               \<in> {DMA_STATUS_COMPLETE, DMA_STATUS_ERROR}"
    and body: "(let use_timeout = 0 < timeout_ms; r = DMA_GetStatus channel s
        in if fst r = DMA_STATUS_COMPLETE then Some (1, snd r)
           else if fst r = DMA_STATUS_ERROR then Some (0, snd r)
           else if use_timeout then W env channel timeout_ms (env (snd r))
           else W env channel timeout_ms (env (snd r))) = Some y"
  show "\<exists>k. fst (DMA_GetStatus channel (poll_state env channel s k))
               \<in> {DMA_STATUS_COMPLETE, DMA_STATUS_ERROR}"
  proof (cases "fst (DMA_GetStatus channel s) \<in> {DMA_STATUS_COMPLETE, DMA_STATUS_ERROR}")
    case True
    then have "fst (DMA_GetStatus channel (poll_state env channel s 0))
               \<in> {DMA_STATUS_COMPLETE, DMA_STATUS_ERROR}" by simp
    then show ?thesis by blast
  next
    case False
    with body have "W env channel timeout_ms (env (snd (DMA_GetStatus channel s))) = Some y"
      by (auto simp: Let_def split: if_splits)
    from IH [OF this] obtain k where
      "fst (DMA_GetStatus channel
             (poll_state env channel (env (snd (DMA_GetStatus channel s))) k))
         \<in> {DMA_STATUS_COMPLETE, DMA_STATUS_ERROR}" by blast
    then have "fst (DMA_GetStatus channel (poll_state env channel s (Suc k)))
         \<in> {DMA_STATUS_COMPLETE, DMA_STATUS_ERROR}"
      unfolding poll_state_shift .
    then show ?thesis by blast
  qed
qed

lemma DMA_WaitComplete_never_terminal:
  assumes "\<forall>k. fst (DMA_GetStatus channel (poll_state env channel s k))
                 \<notin> {DMA_STATUS_COMPLETE, DMA_STATUS_ERROR}"
  shows "DMA_WaitComplete env channel timeout_ms s = None"
proof (cases "DMA_WaitComplete env channel timeout_ms s")
  case None
  then show ?thesis .
next
  case (Some y)
  from DMA_WaitComplete_Some_terminal [OF Some] assms show ?thesis by blast
qed


lemma first_terminal_poll:
  assumes "fst (DMA_GetStatus channel (poll_state env channel s k))
             \<in> {DMA_STATUS_COMPLETE, DMA_STATUS_ERROR}"
  shows "\<exists>m. (\<forall>j<m. fst (DMA_GetStatus channel (poll_state env channel s j))
                    \<notin> {DMA_STATUS_COMPLETE, DMA_STATUS_ERROR})
    \<and> fst (DMA_GetStatus channel (poll_state env channel s m))
          \<in> {DMA_STATUS_COMPLETE, DMA_STATUS_ERROR}"
proof -
  let ?Q = "\<lambda>m. fst (DMA_GetStatus channel (poll_state env channel s m))
                 \<in> {DMA_STATUS_COMPLETE, DMA_STATUS_ERROR}"
  from assms have "?Q k" .
  then have "?Q (LEAST m. ?Q m)" by (rule LeastI)
  moreover have "\<forall>j<(LEAST m. ?Q m). \<not> ?Q j" using not_less_Least by blast
  ultimately show ?thesis by blast
qed

text \<open>
  Claim C9.  \<open>DMA_WaitComplete\<close> ignores its timeout parameter.  Whatever
  \<open>timeout_ms\<close> is: if the first poll that sees \<open>COMPLETE\<close> or \<open>ERROR\<close> sees
  \<open>COMPLETE\<close>, the call returns 1; if it sees \<open>ERROR\<close>, the call returns 0; if no poll
  ever sees one of the two, the call does not return.  A return value of 0 always comes
  from a poll that saw \<open>ERROR\<close>, never from elapsed time, and the result for any
  \<open>timeout_ms\<close> is the result for \<open>timeout_ms = 0\<close>.
\<close>

theorem DMA_WaitComplete_ignores_timeout:
  "((\<forall>j<k. fst (DMA_GetStatus channel (poll_state env channel s j))
              \<notin> {DMA_STATUS_COMPLETE, DMA_STATUS_ERROR})
      \<and> fst (DMA_GetStatus channel (poll_state env channel s k)) = DMA_STATUS_COMPLETE
     \<longrightarrow> DMA_WaitComplete env channel timeout_ms s
           = Some (1, snd (DMA_GetStatus channel (poll_state env channel s k))))
   \<and> ((\<forall>j<k. fst (DMA_GetStatus channel (poll_state env channel s j))
              \<notin> {DMA_STATUS_COMPLETE, DMA_STATUS_ERROR})
      \<and> fst (DMA_GetStatus channel (poll_state env channel s k)) = DMA_STATUS_ERROR
     \<longrightarrow> DMA_WaitComplete env channel timeout_ms s
           = Some (0, snd (DMA_GetStatus channel (poll_state env channel s k))))
   \<and> ((\<forall>j. fst (DMA_GetStatus channel (poll_state env channel s j))
              \<notin> {DMA_STATUS_COMPLETE, DMA_STATUS_ERROR})
     \<longrightarrow> DMA_WaitComplete env channel timeout_ms s = None)
   \<and> (DMA_WaitComplete env channel timeout_ms s = Some (0, s')
     \<longrightarrow> (\<exists>m. fst (DMA_GetStatus channel (poll_state env channel s m)) = DMA_STATUS_ERROR))
   \<and> DMA_WaitComplete env channel timeout_ms s = DMA_WaitComplete env channel 0 s"
proof (intro conjI impI)
  assume "(\<forall>j<k. fst (DMA_GetStatus channel (poll_state env channel s j))
              \<notin> {DMA_STATUS_COMPLETE, DMA_STATUS_ERROR})
      \<and> fst (DMA_GetStatus channel (poll_state env channel s k)) = DMA_STATUS_COMPLETE"
  then show "DMA_WaitComplete env channel timeout_ms s
           = Some (1, snd (DMA_GetStatus channel (poll_state env channel s k)))"
    using DMA_WaitComplete_first_terminal [of k channel env s timeout_ms] by simp
next
  assume "(\<forall>j<k. fst (DMA_GetStatus channel (poll_state env channel s j))
              \<notin> {DMA_STATUS_COMPLETE, DMA_STATUS_ERROR})
      \<and> fst (DMA_GetStatus channel (poll_state env channel s k)) = DMA_STATUS_ERROR"
  then show "DMA_WaitComplete env channel timeout_ms s
           = Some (0, snd (DMA_GetStatus channel (poll_state env channel s k)))"
    using DMA_WaitComplete_first_terminal [of k channel env s timeout_ms] by simp
next
  assume "\<forall>j. fst (DMA_GetStatus channel (poll_state env channel s j))
              \<notin> {DMA_STATUS_COMPLETE, DMA_STATUS_ERROR}"
  then show "DMA_WaitComplete env channel timeout_ms s = None"
    by (rule DMA_WaitComplete_never_terminal)
next
  assume r: "DMA_WaitComplete env channel timeout_ms s = Some (0, s')"
  from DMA_WaitComplete_Some_terminal [OF r] obtain k where
    "fst (DMA_GetStatus channel (poll_state env channel s k))
       \<in> {DMA_STATUS_COMPLETE, DMA_STATUS_ERROR}" by blast
  from first_terminal_poll [OF this] obtain m where
    m: "\<forall>j<m. fst (DMA_GetStatus channel (poll_state env channel s j))
                    \<notin> {DMA_STATUS_COMPLETE, DMA_STATUS_ERROR}"
       "fst (DMA_GetStatus channel (poll_state env channel s m))
          \<in> {DMA_STATUS_COMPLETE, DMA_STATUS_ERROR}" by blast
  from DMA_WaitComplete_first_terminal [OF m, of timeout_ms] r
  have "fst (DMA_GetStatus channel (poll_state env channel s m)) \<noteq> DMA_STATUS_COMPLETE"
    by auto
  with m(2) show "\<exists>m. fst (DMA_GetStatus channel (poll_state env channel s m)) = DMA_STATUS_ERROR"
    by blast
next
  show "DMA_WaitComplete env channel timeout_ms s = DMA_WaitComplete env channel 0 s"
  proof (cases "\<exists>k. fst (DMA_GetStatus channel (poll_state env channel s k))
                      \<in> {DMA_STATUS_COMPLETE, DMA_STATUS_ERROR}")
    case True
    then obtain k where "fst (DMA_GetStatus channel (poll_state env channel s k))
                      \<in> {DMA_STATUS_COMPLETE, DMA_STATUS_ERROR}" by blast
    from first_terminal_poll [OF this] obtain m where
      m: "\<forall>j<m. fst (DMA_GetStatus channel (poll_state env channel s j))
                    \<notin> {DMA_STATUS_COMPLETE, DMA_STATUS_ERROR}"
         "fst (DMA_GetStatus channel (poll_state env channel s m))
            \<in> {DMA_STATUS_COMPLETE, DMA_STATUS_ERROR}" by blast
    show ?thesis
      by (simp only: DMA_WaitComplete_first_terminal [OF m])
  next
    case False
    then have "\<forall>k. fst (DMA_GetStatus channel (poll_state env channel s k))
                 \<notin> {DMA_STATUS_COMPLETE, DMA_STATUS_ERROR}" by blast
    then show ?thesis
      using DMA_WaitComplete_never_terminal [of channel env s timeout_ms]
        DMA_WaitComplete_never_terminal [of channel env s 0] by simp
  qed
qed

lemma GetStatus_idle: "DMA_GetStatus 1 dma_reset_state = (DMA_STATUS_IDLE, dma_reset_state)"
  by (simp add: DMA_GetStatus_eq tc_flag_def te_flag_def Let_def dma_reset_state_def)

lemma poll_state_idle: "poll_state id 1 dma_reset_state k = dma_reset_state"
proof (induction k)
  case 0
  show ?case by simp
next
  case (Suc k)
  then show ?case by (simp only: poll_state.simps GetStatus_idle snd_conv id_apply)
qed

theorem DMA_WaitComplete_ignores_timeout_witness:
  "DMA_WaitComplete id 1 1000 dma_reset_state = None
   \<and> map_option fst (DMA_WaitComplete id 1 1000 (dma_reset_state\<lparr>INTFR := 0x2\<rparr>)) = Some 1
   \<and> map_option fst (DMA_WaitComplete id 1 1000 (dma_reset_state\<lparr>INTFR := 0x8\<rparr>)) = Some 0
   \<and> DMA_WaitComplete id 1 1000 dma_reset_state = DMA_WaitComplete id 1 0 dma_reset_state"
proof -
  have idle: "\<forall>j. fst (DMA_GetStatus 1 (poll_state id 1 dma_reset_state j))
              \<notin> {DMA_STATUS_COMPLETE, DMA_STATUS_ERROR}"
    unfolding poll_state_idle GetStatus_idle by simp
  note t = DMA_WaitComplete_ignores_timeout [of 0 1 id _ 1000]
  from t [of dma_reset_state] idle
  have e1: "DMA_WaitComplete id 1 1000 dma_reset_state = None" by blast
  have c: "fst (DMA_GetStatus 1 (poll_state id 1 (dma_reset_state\<lparr>INTFR := 0x2\<rparr>) 0))
             = DMA_STATUS_COMPLETE"
    by (simp add: DMA_GetStatus_eq tc_flag_def te_flag_def Let_def dma_reset_state_def)
  have e: "fst (DMA_GetStatus 1 (poll_state id 1 (dma_reset_state\<lparr>INTFR := 0x8\<rparr>) 0))
             = DMA_STATUS_ERROR"
    by (simp add: DMA_GetStatus_eq tc_flag_def te_flag_def Let_def dma_reset_state_def)
  from t [of "dma_reset_state\<lparr>INTFR := 0x2\<rparr>"] c
  have e2: "map_option fst (DMA_WaitComplete id 1 1000 (dma_reset_state\<lparr>INTFR := 0x2\<rparr>)) = Some 1"
    by simp
  from t [of "dma_reset_state\<lparr>INTFR := 0x8\<rparr>"] e
  have e3: "map_option fst (DMA_WaitComplete id 1 1000 (dma_reset_state\<lparr>INTFR := 0x8\<rparr>)) = Some 0"
    by simp
  from t [of dma_reset_state]
  have e4: "DMA_WaitComplete id 1 1000 dma_reset_state = DMA_WaitComplete id 1 0 dma_reset_state"
    by blast
  from e1 e2 e3 e4 show ?thesis by blast
qed

subsection \<open>Memory copy\<close>

lemmas memcopy_defs =
  DMA_Start_def DMA_SimpleInit_def memcopy_config_def DMA_CH1_def Let_def
    DMA_Init_def DMA_Reset_def DMA_Cmd_def DMA_ClearFlag_def enable_dma_clock_def
    RCC_AHBPeriphClockCmd_DMA1_def set_status_def get_channel_base_def flag_clear_mask_def
    DMA1_FLAG_TC1_def DMA1_FLAG_TE1_def DMA1_FLAG_GL1_def DMA_CFGR1_EN_def CFGR_CLEAR_Mask_def
    DMA_DIR_PeripheralSRC_def DMA_M2M_Enable_def DMA_PeripheralInc_Enable_def
    DMA_MemoryInc_Enable_def DMA_PeripheralDataSize_Byte_def DMA_Mode_Normal_def
    DMA_Priority_High_def

lemma memcopy_started:
  fixes s :: dma_state and dst src :: "32 word" and sz :: "16 word"
  assumes "length (channel_status s) = 7" "length (CFGR s) = 7" "length (CNTR s) = 7"
    "length (PADDR s) = 7" "length (MADDR s) = 7"
  defines "s2 \<equiv> DMA_Start DMA_CH1 (DMA_SimpleInit (memcopy_config dst src sz) s)"
  shows "rcc_dma1_clock s2"
    and "length (channel_status s2) = 7" and "length (CFGR s2) = 7" and "length (CNTR s2) = 7"
    and "length (PADDR s2) = 7" and "length (MADDR s2) = 7"
    and "CFGR s2 ! 0 AND 0x7FF1 = 0x60C1"
    and "\<forall>i. 1 \<le> i \<longrightarrow> CFGR s2 ! i = CFGR s ! i"
    and "CNTR s2 ! 0 = ucast sz" and "PADDR s2 ! 0 = src" and "MADDR s2 ! 0 = dst"
    and "ram s2 = ram s"
    and "channel_status s2 ! 0 = DMA_STATUS_BUSY"
    and "\<not> tc_flag 1 s2" and "\<not> te_flag 1 s2"
  using assms(1-5) unfolding s2_def
  by (simp_all add: memcopy_defs tc_flag_def te_flag_def bit_simps
      bit.conj_disj_distrib2 and.assoc)

lemma field_bits:
  assumes "(c :: 32 word) AND 0x7FF1 = 0x60C1"
  shows "bit c 0" "bit c 14" "\<not> bit c 5" "\<not> bit c 4" "bit c 6" "bit c 7"
    "\<not> bit c 8" "\<not> bit c 9" "\<not> bit c 10" "\<not> bit c 11"
proof -
  have "\<And>n. bit (c AND 0x7FF1) n = bit (0x60C1 :: 32 word) n" using assms by simp
  then have a: "\<And>n. (bit c n \<and> bit (0x7FF1 :: 32 word) n) = bit (0x60C1 :: 32 word) n"
    by (simp add: bit_simps)
  show "bit c 0" "bit c 14" "\<not> bit c 5" "\<not> bit c 4" "bit c 6" "bit c 7"
    "\<not> bit c 8" "\<not> bit c 9" "\<not> bit c 10" "\<not> bit c 11"
    using a [of 0] a [of 14] a [of 5] a [of 4] a [of 6] a [of 7] a [of 8] a [of 9] a [of 10] a [of 11]
    by (simp_all add: bit_simps)
qed

lemma engine_unfold:
  "dma_engine_step s = dma_channel_step 6 (dma_channel_step 5 (dma_channel_step 4
     (dma_channel_step 3 (dma_channel_step 2 (dma_channel_step 1 (dma_channel_step 0 s))))))"
  by (simp add: dma_engine_step_def upt_rec eval_nat_numeral)

lemma channel_step_disabled:
  "\<not> bit (CFGR s ! i) 0 \<Longrightarrow> dma_channel_step i s = s"
  by (simp add: dma_channel_step_def Let_def)

lemma ucast_byte_id: "ucast (ucast (x :: 8 word) :: 32 word) = x"
  by (rule bit_word_eqI) (auto simp: bit_simps dest: bit_imp_le_length)

lemma channel_step_byte:
  assumes "rcc_dma1_clock s" and "CFGR s ! i AND 0x7FF1 = 0x60C1" and "CNTR s ! i \<noteq> 0"
  shows "dma_channel_step i s =
     s\<lparr>ram := (ram s)(MADDR s ! i := ram s (PADDR s ! i)),
       PADDR := (PADDR s)[i := PADDR s ! i + 1],
       MADDR := (MADDR s)[i := MADDR s ! i + 1],
       CNTR := (CNTR s)[i := CNTR s ! i - 1],
       INTFR := (if CNTR s ! i - 1 = 0 then INTFR s OR push_bit (4 * i) 3 else INTFR s)\<rparr>"
  using assms field_bits [OF assms(2)]
  by (simp add: dma_channel_step_def Let_def item_width_def load_item_def store_item_def
      ucast_byte_id)

lemma engine_step_copying:
  assumes c: "copying ram0 src dst n k t" and k: "k < n"
  shows "dma_engine_step t =
     t\<lparr>ram := (ram t)(dst + of_nat k := ram t (src + of_nat k)),
       PADDR := (PADDR t)[0 := src + of_nat (Suc k)],
       MADDR := (MADDR t)[0 := dst + of_nat (Suc k)],
       CNTR := (CNTR t)[0 := CNTR t ! 0 - 1],
       INTFR := (if Suc k = n then INTFR t OR 3 else INTFR t)\<rparr>"
proof -
  from c have clk: "rcc_dma1_clock t" and cf: "CFGR t ! 0 AND 0x7FF1 = 0x60C1"
    and cn: "unat (CNTR t ! 0) = n - k"
    and pa: "PADDR t ! 0 = src + of_nat k" and ma: "MADDR t ! 0 = dst + of_nat k"
    and off: "\<forall>i. 1 \<le> i \<and> i < 7 \<longrightarrow> \<not> bit (CFGR t ! i) 0"
    by (simp_all add: copying_def)
  from cn k have nz: "CNTR t ! 0 \<noteq> 0" by (auto simp: unat_eq_0 [symmetric] simp del: unat_eq_0)
  from nz have "unat (CNTR t ! 0 - 1) = unat (CNTR t ! 0) - 1" by (simp add: unat_minus_one)
  with cn have u: "unat (CNTR t ! 0 - 1) = n - Suc k" by simp
  have z: "(CNTR t ! 0 - 1 = 0) = (Suc k = n)"
    using u k by (auto simp: unat_eq_0 [symmetric] simp del: unat_eq_0)
  let ?t1 = "dma_channel_step 0 t"
  have s0: "?t1 =
     t\<lparr>ram := (ram t)(dst + of_nat k := ram t (src + of_nat k)),
       PADDR := (PADDR t)[0 := src + of_nat (Suc k)],
       MADDR := (MADDR t)[0 := dst + of_nat (Suc k)],
       CNTR := (CNTR t)[0 := CNTR t ! 0 - 1],
       INTFR := (if Suc k = n then INTFR t OR 3 else INTFR t)\<rparr>"
    unfolding channel_step_byte [OF clk cf nz] using pa ma z by (simp add: ac_simps)
  have cfg: "CFGR ?t1 = CFGR t" unfolding s0 by simp
  have d: "\<And>i u. 1 \<le> i \<Longrightarrow> i < 7 \<Longrightarrow> CFGR u = CFGR t \<Longrightarrow> dma_channel_step i u = u"
    using off by (simp add: channel_step_disabled)
  have "dma_engine_step t = ?t1"
    unfolding engine_unfold using cfg by (simp add: d)
  with s0 show ?thesis by simp
qed

lemma set_status_regs [simp]:
  "CNTR (set_status i st s) = CNTR s" "PADDR (set_status i st s) = PADDR s"
  "MADDR (set_status i st s) = MADDR s" "ram (set_status i st s) = ram s"
  "rcc_dma1_clock (set_status i st s) = rcc_dma1_clock s"
  by (simp_all add: set_status_def)

lemma copying_poll:
  assumes c: "copying ram0 src dst n k t" and k: "k < n"
  shows "DMA_GetStatus 1 t = (DMA_STATUS_BUSY, t)"
  using c k by (simp add: DMA_GetStatus_eq copying_def)

lemma copying_step:
  assumes c: "copying ram0 src dst n k t" and k: "k < n"
    and apart: "\<forall>i<n. \<forall>j<n. src + of_nat i \<noteq> dst + of_nat j"
  shows "copying ram0 src dst n (Suc k) (dma_engine_step t)"
proof -
  let ?u = "dma_engine_step t"
  note e = engine_step_copying [OF c k]
  from c have cn: "unat (CNTR t ! 0) = n - k"
    and r1: "\<forall>j<k. ram t (dst + of_nat j) = ram0 (src + of_nat j)"
    and r2: "\<forall>a. (\<forall>j<k. a \<noteq> dst + of_nat j) \<longrightarrow> ram t a = ram0 a"
    and len: "length (CNTR t) = 7" "length (PADDR t) = 7" "length (MADDR t) = 7"
    and te: "\<not> te_flag 1 t" and tc: "tc_flag 1 t \<longleftrightarrow> k = n"
    by (simp_all add: copying_def)
  from cn k have nz: "CNTR t ! 0 \<noteq> 0" by (auto simp: unat_eq_0 [symmetric] simp del: unat_eq_0)
  from nz have "unat (CNTR t ! 0 - 1) = unat (CNTR t ! 0) - 1" by (simp add: unat_minus_one)
  with cn have u: "unat (CNTR t ! 0 - 1) = n - Suc k" by simp
  have srck: "ram t (src + of_nat k) = ram0 (src + of_nat k)"
    using r2 apart k by (metis less_trans)
  have a1: "\<forall>j<Suc k. ram ?u (dst + of_nat j) = ram0 (src + of_nat j)"
  proof (intro allI impI)
    fix j assume j: "j < Suc k"
    show "ram ?u (dst + of_nat j) = ram0 (src + of_nat j)"
    proof (cases "dst + of_nat j = dst + of_nat k")
      case True
      then have "(of_nat j :: 32 word) = of_nat k" by simp
      then show ?thesis unfolding e using srck by simp
    next
      case False
      then have "j \<noteq> k" by auto
      with j have "j < k" by simp
      with r1 False show ?thesis unfolding e by simp
    qed
  qed
  have a2: "\<forall>a. (\<forall>j<Suc k. a \<noteq> dst + of_nat j) \<longrightarrow> ram ?u a = ram0 a"
    unfolding e using r2 by simp
  have f: "\<not> te_flag 1 ?u" "tc_flag 1 ?u \<longleftrightarrow> Suc k = n"
    unfolding e using te tc k by (simp_all add: te_flag_def tc_flag_def bit_simps)
  show ?thesis
    unfolding copying_def
    using c a1 a2 f u len unfolding e by (simp add: copying_def)
qed

lemma copying_done:
  assumes c: "copying ram0 src dst n n t"
  shows "DMA_GetStatus 1 t = (DMA_STATUS_COMPLETE, set_status 0 DMA_STATUS_COMPLETE t)"
  using c by (simp add: DMA_GetStatus_eq copying_def)

lemma copying_wait:
  assumes apart: "\<forall>i<n. \<forall>j<n. src + of_nat i \<noteq> dst + of_nat j"
  shows "copying ram0 src dst n k t \<Longrightarrow> k \<le> n \<Longrightarrow>
    \<exists>u. DMA_WaitComplete dma_engine_step 1 tm t = Some (1, set_status 0 DMA_STATUS_COMPLETE u)
       \<and> copying ram0 src dst n n u"
proof (induction "n - k" arbitrary: k t)
  case 0
  then have "k = n" by simp
  with 0 have c: "copying ram0 src dst n n t" by simp
  show ?case by (subst DMA_WaitComplete_step) (use c copying_done [OF c] in auto)
next
  case (Suc d)
  then have k: "k < n" by simp
  note p = copying_poll [OF Suc.prems(1) k]
  note c1 = copying_step [OF Suc.prems(1) k apart]
  have "d = n - Suc k" using Suc.hyps(2) by simp
  from Suc.hyps(1) [OF this c1] k
  obtain u where u: "DMA_WaitComplete dma_engine_step 1 tm (dma_engine_step t)
        = Some (1, set_status 0 DMA_STATUS_COMPLETE u)" "copying ram0 src dst n n u"
    by auto
  have "DMA_WaitComplete dma_engine_step 1 tm t
      = DMA_WaitComplete dma_engine_step 1 tm (dma_engine_step t)"
    by (subst DMA_WaitComplete_step) (use p in simp)
  with u show ?case by auto
qed

end
